theory Spec2Isabelle
  imports Main "HOL-Library.Word"
begin

unbundle bit_operations_syntax

section \<open>Faults\<close>

text \<open>
  The source guards its assumptions with \<^verbatim>\<open>DCHECK\<close> and dereferences pointers without a
  test. Both are branches of the model: a failed \<^verbatim>\<open>DCHECK\<close> and the dereference of a null
  pointer end the call with a fault, and every operation that can reach one returns
  \<open>fault + 'a\<close>.
\<close>

datatype fault =
    DCHECK_request_id_LE_kInitialRequestID
  | DCHECK_id_not_in_map
  | DCHECK_id_in_map
  | DCHECK_status_IO_PENDING
  | DCHECK_url_request
  | Null_client
  | Null_loader
  | Null_headers

definition thenR :: "fault + 'a \<Rightarrow> ('a \<Rightarrow> fault + 'b) \<Rightarrow> fault + 'b" where
  "thenR r k = (case r of Inl f \<Rightarrow> Inl f | Inr x \<Rightarrow> k x)"

section \<open>Request identifiers and the request manager\<close>

text \<open>
  \<^verbatim>\<open>int32_t\<close> identifiers are 32-bit words read as signed numbers (\<open>sint\<close>), so that the
  decrement of \<^verbatim>\<open>MakeRequestID\<close> wraps as the machine does. References to the request
  object and to the client (\<^verbatim>\<open>CefRefPtr\<close>) are natural numbers naming the object, and a
  null reference is \<open>None\<close>.
\<close>

type_synonym request_id_t = "32 word"
type_synonym handle = nat
type_synonym client_ref = nat
type_synonym RequestInfo = "handle option \<times> client_ref option"
type_synonym RequestMap = "request_id_t \<rightharpoonup> RequestInfo"

definition kInitialRequestID :: request_id_t where
  "kInitialRequestID = - 2"

text \<open>
  \<^verbatim>\<open>MakeRequestID\<close>: the argument is the function's static counter, the result is the
  identifier returned together with the counter's new value.
\<close>

definition MakeRequestID :: "request_id_t \<Rightarrow> request_id_t \<times> request_id_t" where
  "MakeRequestID request_id = (request_id - 1, request_id - 1)"

definition RequestManager_Add ::
  "request_id_t \<Rightarrow> handle option \<Rightarrow> client_ref option \<Rightarrow> RequestMap \<Rightarrow>
   fault + RequestMap" where
  "RequestManager_Add request_id request client m =
     (if \<not> sint request_id \<le> sint kInitialRequestID
        then Inl DCHECK_request_id_LE_kInitialRequestID
      else if m request_id \<noteq> None then Inl DCHECK_id_not_in_map
      else Inr (m(request_id \<mapsto> (request, client))))"

definition RequestManager_Remove :: "request_id_t \<Rightarrow> RequestMap \<Rightarrow> fault + RequestMap" where
  "RequestManager_Remove request_id m =
     (if sint request_id > sint kInitialRequestID then Inr m
      else if m request_id = None then Inl DCHECK_id_in_map
      else Inr (m(request_id := None)))"

definition RequestManager_Get :: "request_id_t \<Rightarrow> RequestMap \<Rightarrow> RequestInfo option" where
  "RequestManager_Get request_id m =
     (if sint request_id > sint kInitialRequestID then None else m request_id)"

text \<open>A history of calls on the manager, run from a given table until the first fault.\<close>

datatype manager_call =
    CallAdd request_id_t "handle option" "client_ref option"
  | CallRemove request_id_t

fun manager_call_apply :: "manager_call \<Rightarrow> RequestMap \<Rightarrow> fault + RequestMap" where
  "manager_call_apply (CallAdd i r c) m = RequestManager_Add i r c m"
| "manager_call_apply (CallRemove i) m = RequestManager_Remove i m"

fun manager_run :: "manager_call list \<Rightarrow> RequestMap \<Rightarrow> fault + RequestMap" where
  "manager_run [] m = Inr m"
| "manager_run (c # cs) m = thenR (manager_call_apply c m) (manager_run cs)"

text \<open>
  The specification's reading of a lookup, written from its words and independent of
  the table: the entry of the latest \<open>add(id, \<dots>)\<close> of the history, unless a
  \<open>remove(id)\<close> has occurred since.
\<close>

fun spec_entry_after :: "request_id_t \<Rightarrow> manager_call \<Rightarrow> RequestInfo option \<Rightarrow> RequestInfo option" where
  "spec_entry_after i (CallAdd j r c) e = (if j = i then Some (r, c) else e)"
| "spec_entry_after i (CallRemove j) e = (if j = i then None else e)"

definition spec_lookup :: "request_id_t \<Rightarrow> manager_call list \<Rightarrow> RequestInfo option" where
  "spec_lookup i cs = fold (spec_entry_after i) cs None"

section \<open>Data model\<close>

subsection \<open>Constants of the public API\<close>

text \<open>
  The enumerations \<^verbatim>\<open>cef_urlrequest_status_t\<close>, \<^verbatim>\<open>cef_errorcode_t\<close> and
  \<^verbatim>\<open>cef_urlrequest_flags_t\<close> are declared in CEF's public headers. The flags are
  distinct single bits of an \<^verbatim>\<open>int\<close>; the code tests them with \<^verbatim>\<open>&\<close>.
\<close>

datatype Status = UR_UNKNOWN | UR_SUCCESS | UR_IO_PENDING | UR_CANCELED | UR_FAILED

type_synonym errorcode = int

definition ERR_NONE :: errorcode where "ERR_NONE = 0"
definition ERR_ABORTED :: errorcode where "ERR_ABORTED = - 3"

definition UR_FLAG_ALLOW_STORED_CREDENTIALS :: "32 word" where
  "UR_FLAG_ALLOW_STORED_CREDENTIALS = 8"
definition UR_FLAG_REPORT_UPLOAD_PROGRESS :: "32 word" where
  "UR_FLAG_REPORT_UPLOAD_PROGRESS = 16"
definition UR_FLAG_NO_DOWNLOAD_DATA :: "32 word" where
  "UR_FLAG_NO_DOWNLOAD_DATA = 32"
definition UR_FLAG_NO_RETRY_ON_5XX :: "32 word" where
  "UR_FLAG_NO_RETRY_ON_5XX = 64"
definition UR_FLAG_STOP_ON_REDIRECT :: "32 word" where
  "UR_FLAG_STOP_ON_REDIRECT = 128"

text \<open>\<^verbatim>\<open>request_flags & F\<close> used as a condition.\<close>

definition flag_set :: "32 word \<Rightarrow> 32 word \<Rightarrow> bool" where
  "flag_set request_flags F = (request_flags AND F \<noteq> 0)"

definition MSG_ROUTING_NONE :: int where "MSG_ROUTING_NONE = - 2"

text \<open>
  Modelled from the spec: the constant \<^verbatim>\<open>net_service::kContentTypeApplicationFormURLEncoded\<close>
  is declared outside the file; the specification gives its value.
\<close>

definition kContentTypeApplicationFormURLEncoded :: string where
  "kContentTypeApplicationFormURLEncoded = ''application/x-www-form-urlencoded''"

definition kContentType :: string where
  "kContentType = ''Content-Type''"

definition RETRY_ON_5XX :: "32 word" where "RETRY_ON_5XX = 1"
definition RETRY_ON_NETWORK_CHANGE :: "32 word" where "RETRY_ON_NETWORK_CHANGE = 2"

subsection \<open>Request descriptor\<close>

type_synonym bytes = "8 word list"

datatype DataElementType = kUnknown | kBytes | kFile | kBlob | kDataPipe | kChunkedDataPipe

record DataElement =
  el_type :: DataElementType
  el_path :: string
  el_bytes :: bytes
  el_offset :: "64 word"
  el_length :: "64 word"

type_synonym header_list = "(string \<times> string) list"

record Request =
  req_url :: string
  req_method :: string
  req_headers :: header_list
  req_postdata :: "DataElement list option"
  req_flags :: "32 word"
  req_read_only :: bool

definition Request_SetReadOnly :: "bool \<Rightarrow> Request \<Rightarrow> Request" where
  "Request_SetReadOnly b r = r\<lparr>req_read_only := b\<rparr>"

text \<open>
  Modelled from the spec: the setters of the request and response objects live in
  \<^verbatim>\<open>request_impl.cc\<close> and \<^verbatim>\<open>response_impl.cc\<close>. An object marked read-only ignores
  its setters; the owner unlocks it around each group of updates.
\<close>

definition Request_SetMethod :: "string \<Rightarrow> Request \<Rightarrow> Request" where
  "Request_SetMethod m r = (if req_read_only r then r else r\<lparr>req_method := m\<rparr>)"

subsection \<open>Transport request and loader\<close>

record ResourceRequest =
  rr_url :: string
  rr_method :: string
  rr_headers :: header_list
  rr_request_body :: "DataElement list option"
  rr_render_frame_id :: int
  rr_subresource :: bool
  rr_request_initiator :: "string option"
  rr_force_ignore_site_for_cookies :: bool
  rr_site_for_cookies :: "string option"

text \<open>
  Modelled from the spec: \<^verbatim>\<open>CefRequestImpl::Get\<close> (in \<^verbatim>\<open>request_impl.cc\<close>) copies the
  descriptor's fields into a transport-native request.
\<close>

definition Request_Get :: "Request \<Rightarrow> ResourceRequest" where
  "Request_Get r =
     \<lparr> rr_url = req_url r, rr_method = req_method r, rr_headers = req_headers r,
       rr_request_body = req_postdata r, rr_render_frame_id = MSG_ROUTING_NONE,
       rr_subresource = False, rr_request_initiator = None,
       rr_force_ignore_site_for_cookies = False, rr_site_for_cookies = None \<rparr>"

text \<open>
  \<^verbatim>\<open>net::HttpRequestHeaders::GetHeader\<close>: header names compare without regard to ASCII
  case; the output string is written only when the header is present.
\<close>

definition ascii_lower :: "char \<Rightarrow> char" where
  "ascii_lower c =
     (let n = of_char c :: nat in if 65 \<le> n \<and> n \<le> 90 then char_of (n + 32) else c)"

fun GetHeader :: "header_list \<Rightarrow> string \<Rightarrow> string option" where
  "GetHeader [] key = None"
| "GetHeader ((k, v) # hs) key =
     (if map ascii_lower k = map ascii_lower key then Some v else GetHeader hs key)"

datatype Upload = FileUpload string string | StringUpload bytes string

datatype DownloadMode = NotStarted | HeadersOnly | AsStream

text \<open>
  The loader (\<^verbatim>\<open>network::SimpleURLLoader\<close>) as the calls of the file configure it, with
  the three results it reports when the load is complete.
\<close>

record SimpleURLLoader =
  ld_resource_request :: ResourceRequest
  ld_request_id :: "request_id_t option"
  ld_upload :: "Upload option"
  ld_allow_http_error_results :: bool
  ld_retry_options :: "(int \<times> 32 word) option"
  ld_on_redirect :: bool
  ld_on_upload_progress :: bool
  ld_on_response_started :: bool
  ld_on_download_progress :: bool
  ld_download :: DownloadMode
  ld_final_url :: string
  ld_net_error :: int
  ld_loaded_from_cache :: bool

definition SimpleURLLoader_Create :: "ResourceRequest \<Rightarrow> SimpleURLLoader" where
  "SimpleURLLoader_Create rr =
     \<lparr> ld_resource_request = rr, ld_request_id = None, ld_upload = None,
       ld_allow_http_error_results = False, ld_retry_options = None,
       ld_on_redirect = False, ld_on_upload_progress = False,
       ld_on_response_started = False, ld_on_download_progress = False,
       ld_download = NotStarted, ld_final_url = [], ld_net_error = 0,
       ld_loaded_from_cache = False \<rparr>"

record LoaderOutcome =
  out_final_url :: string
  out_net_error :: int
  out_loaded_from_cache :: bool

subsection \<open>Response record\<close>

record HttpResponseHeaders =
  hdr_response_code :: int
  hdr_content_length :: "64 word"
  hdr_lines :: header_list

record URLResponseHead =
  rh_headers :: "HttpResponseHeaders option"
  rh_content_length :: "64 word"

record Response =
  resp_url :: string
  resp_status :: int
  resp_headers :: header_list
  resp_error :: errorcode
  resp_read_only :: bool

definition Response_new :: Response where
  "Response_new = \<lparr> resp_url = [], resp_status = 0, resp_headers = [],
                     resp_error = ERR_NONE, resp_read_only = False \<rparr>"

definition Response_SetReadOnly :: "bool \<Rightarrow> Response \<Rightarrow> Response" where
  "Response_SetReadOnly b r = r\<lparr>resp_read_only := b\<rparr>"

definition Response_SetURL :: "string \<Rightarrow> Response \<Rightarrow> Response" where
  "Response_SetURL u r = (if resp_read_only r then r else r\<lparr>resp_url := u\<rparr>)"

definition Response_SetError :: "errorcode \<Rightarrow> Response \<Rightarrow> Response" where
  "Response_SetError e r = (if resp_read_only r then r else r\<lparr>resp_error := e\<rparr>)"

definition Response_SetResponseHeaders :: "HttpResponseHeaders \<Rightarrow> Response \<Rightarrow> Response" where
  "Response_SetResponseHeaders h r =
     (if resp_read_only r then r
      else r\<lparr>resp_headers := hdr_lines h, resp_status := hdr_response_code h\<rparr>)"

section \<open>The request context\<close>

subsection \<open>State\<close>

text \<open>
  Calls on the client object, in the order they are made; each carries the request
  pointer passed to it (\<^verbatim>\<open>url_request_.get()\<close>). The client is an observer: a callback
  returns without calling back into the request. All calls of the context run on the
  thread it was created on (the \<^verbatim>\<open>CalledOnValidThread\<close> assertions), so the model is
  sequential and has no branch for them.
\<close>

datatype ClientCall =
    Client_OnRequestComplete "handle option"
  | Client_OnUploadProgress "handle option" "64 word" "64 word"
  | Client_OnDownloadProgress "handle option" "64 word" "64 word"
  | Client_OnDownloadData "handle option" bytes

text \<open>
  A frame handle is modelled by what the UI-thread step reads from it: the frame tree
  node id of its render frame host, or \<open>None\<close> when the frame has no host. A loader
  factory getter records the host it was created for.
\<close>

type_synonym Frame = "int option"

datatype URLLoaderFactoryGetter = Getter "int option"

type_synonym ContinueArgs = "int \<times> request_id_t \<times> URLLoaderFactoryGetter option"

text \<open>
  The members of \<^verbatim>\<open>CefBrowserURLRequest::Context\<close> under their names (without the
  trailing underscore), followed by what the context acts on: the process-wide table
  \<^verbatim>\<open>g_manager\<close>, the static counter of \<^verbatim>\<open>MakeRequestID\<close>, the calls received by the
  client, the tasks posted to the UI thread and back to the originating thread, and
  the objects handed to \<^verbatim>\<open>DeleteSoon\<close> and \<^verbatim>\<open>ReleaseSoon\<close>. The last field,
  \<open>finalizations\<close>, is auxiliary: it counts the executions of the block of
  \<^verbatim>\<open>OnComplete\<close> that writes the response's final URL, error code and cached flag.
\<close>

record State =
  url_request :: "handle option"
  frame :: "Frame option"
  request :: Request
  client :: "client_ref option"
  request_context :: "nat option"
  loader_factory_getter :: "URLLoaderFactoryGetter option"
  loader :: "SimpleURLLoader option"
  request_id :: request_id_t
  status :: Status
  response :: Response
  response_was_cached :: bool
  upload_data_size :: "64 word"
  download_data_size :: "64 word"
  got_upload_progress_complete :: bool
  cleanup_immediately :: bool
  g_manager :: RequestMap
  next_request_id :: request_id_t
  client_calls :: "ClientCall list"
  ui_tasks :: "(Frame option \<times> nat option) list"
  origin_tasks :: "ContinueArgs list"
  delete_soon :: "SimpleURLLoader list"
  release_soon :: "URLLoaderFactoryGetter option list"
  finalizations :: nat

text \<open>
  The constructor, with the member initialisers of the class. The table and the
  counter are the process's, whatever they hold when the request is created.
\<close>

definition Context_new ::
  "handle \<Rightarrow> Frame option \<Rightarrow> Request \<Rightarrow> client_ref \<Rightarrow> nat option \<Rightarrow>
   RequestMap \<Rightarrow> request_id_t \<Rightarrow> State" where
  "Context_new url_request' frame' request' client' request_context' manager counter =
     \<lparr> url_request = Some url_request', frame = frame',
       request = Request_SetReadOnly True request', client = Some client',
       request_context = request_context', loader_factory_getter = None,
       loader = None, request_id = 0, status = UR_IO_PENDING,
       response = Response_SetReadOnly True Response_new,
       response_was_cached = False, upload_data_size = 0, download_data_size = - 1,
       got_upload_progress_complete = False, cleanup_immediately = False,
       g_manager = manager, next_request_id = counter, client_calls = [],
       ui_tasks = [], origin_tasks = [], delete_soon = [], release_soon = [],
       finalizations = 0 \<rparr>"

text \<open>
  Functions of the platform that the file calls and does not define: the validity of
  a parsed URL (\<^verbatim>\<open>GURL::is_valid\<close>), the extension of a file path with its leading
  period (\<^verbatim>\<open>FilePath::Extension\<close>) and the MIME type of an extension
  (\<^verbatim>\<open>net::GetMimeTypeFromExtension\<close>). They are parameters of the model.
\<close>

record Platform =
  url_is_valid :: "string \<Rightarrow> bool"
  path_extension :: "string \<Rightarrow> string"
  mime_type_from_extension :: "string \<Rightarrow> string option"

subsection \<open>Calls on the client\<close>

definition call_client :: "ClientCall \<Rightarrow> State \<Rightarrow> fault + State" where
  "call_client c s =
     (case client s of
        None \<Rightarrow> Inl Null_client
      | Some _ \<Rightarrow> Inr (s\<lparr>client_calls := client_calls s @ [c]\<rparr>))"

subsection \<open>Teardown and completion\<close>

definition Cleanup :: "State \<Rightarrow> fault + State" where
  "Cleanup s =
     (if url_request s = None then Inl DCHECK_url_request
      else thenR (RequestManager_Remove (request_id s) (g_manager s)) (\<lambda>m.
        let s1 = s\<lparr>g_manager := m, client := None, request_context := None\<rparr>;
            s2 = (case loader s1 of
                    None \<Rightarrow> s1
                  | Some l \<Rightarrow>
                      if cleanup_immediately s1
                        then s1\<lparr>loader := None, loader_factory_getter := None\<rparr>
                      else s1\<lparr>delete_soon := delete_soon s1 @ [l],
                              release_soon := release_soon s1 @ [loader_factory_getter s1],
                              loader := None, loader_factory_getter := None\<rparr>)
        in Inr (s2\<lparr>url_request := None\<rparr>)))"

definition NotifyUploadProgressIfNecessary :: "State \<Rightarrow> fault + State" where
  "NotifyUploadProgressIfNecessary s =
     (if \<not> got_upload_progress_complete s \<and> 0 < sint (upload_data_size s)
        then thenR (call_client (Client_OnUploadProgress (url_request s)
                      (upload_data_size s) (upload_data_size s)) s)
               (\<lambda>s1. Inr (s1\<lparr>got_upload_progress_complete := True\<rparr>))
      else Inr s)"

definition OnComplete :: "bool \<Rightarrow> State \<Rightarrow> fault + State" where
  "OnComplete success s =
     (if url_request s = None then Inr s
      else thenR
        (if status s = UR_IO_PENDING
           then (case loader s of
                   None \<Rightarrow> Inl Null_loader
                 | Some l \<Rightarrow>
                     Inr (s\<lparr>status := (if success then UR_SUCCESS else UR_FAILED),
                            response :=
                              Response_SetReadOnly True
                                (Response_SetError (ld_net_error l)
                                  (Response_SetURL (ld_final_url l)
                                    (Response_SetReadOnly False (response s)))),
                            response_was_cached := ld_loaded_from_cache l,
                            finalizations := Suc (finalizations s)\<rparr>))
         else Inr s)
        (\<lambda>s1. thenR (if success then NotifyUploadProgressIfNecessary s1 else Inr s1)
          (\<lambda>s2. thenR (call_client (Client_OnRequestComplete (url_request s2)) s2) Cleanup)))"

definition Cancel :: "State \<Rightarrow> fault + State" where
  "Cancel s =
     (if url_request s = None then Inr s
      else if status s \<noteq> UR_IO_PENDING then Inl DCHECK_status_IO_PENDING
      else OnComplete False
             (s\<lparr>status := UR_CANCELED,
                response :=
                  Response_SetReadOnly True
                    (Response_SetError ERR_ABORTED
                      (Response_SetReadOnly False (response s))),
                cleanup_immediately := True\<rparr>))"

subsection \<open>Start and the hop through the UI thread\<close>

definition Start :: "Platform \<Rightarrow> State \<Rightarrow> bool \<times> State" where
  "Start P s =
     (if \<not> url_is_valid P (req_url (request s)) then (False, s)
      else (True, s\<lparr>ui_tasks := ui_tasks s @ [(frame s, request_context s)]\<rparr>))"

text \<open>
  \<^verbatim>\<open>GetURLLoaderFactoryGetterOnUIThread\<close>: from the frame captured by the task and the
  static counter, the arguments posted to \<^verbatim>\<open>ContinueOnOriginatingThread\<close> and the new
  counter. The getter stays null exactly when a frame was given and it has no host.
\<close>

definition GetURLLoaderFactoryGetterOnUIThread ::
  "Frame option \<Rightarrow> request_id_t \<Rightarrow> ContinueArgs \<times> request_id_t" where
  "GetURLLoaderFactoryGetterOnUIThread frame' counter =
     (let (render_frame_id, loader_factory_getter') =
            (case frame' of
               Some rfh \<Rightarrow>
                 (case rfh of
                    Some node_id \<Rightarrow> (node_id, Some (Getter (Some node_id)))
                  | None \<Rightarrow> (MSG_ROUTING_NONE, None))
             | None \<Rightarrow> (MSG_ROUTING_NONE, Some (Getter None)));
          (new_id, counter') = MakeRequestID counter
      in ((render_frame_id, new_id, loader_factory_getter'), counter'))"

subsection \<open>Configuration of the transport\<close>

text \<open>
  \<^verbatim>\<open>ContinueOnOriginatingThread\<close> in three parts. The first builds the transport
  request: it takes the body out of it and, when there is a body, rewrites a GET or
  HEAD method to POST on the transport request and on the descriptor, and reads the
  Content-Type header. Its result is the transport request, the body taken out, the
  content type, the local \<^verbatim>\<open>method\<close> and the descriptor.
\<close>

definition prepare_resource_request ::
  "int \<Rightarrow> Request \<Rightarrow>
   ResourceRequest \<times> DataElement list option \<times> string \<times> string \<times> Request" where
  "prepare_resource_request render_frame_id req =
     (let request_flags = req_flags req;
          rr0 = (Request_Get req)\<lparr>rr_render_frame_id := render_frame_id,
                  rr_subresource := True, rr_request_initiator := Some (req_url req)\<rparr>;
          rr1 = (if flag_set request_flags UR_FLAG_ALLOW_STORED_CREDENTIALS
                   then rr0\<lparr>rr_force_ignore_site_for_cookies := True,
                           rr_site_for_cookies := rr_request_initiator rr0\<rparr>
                 else rr0);
          request_body = rr_request_body rr1;
          rr2 = rr1\<lparr>rr_request_body := None\<rparr>;
          method0 = rr_method rr2
      in if request_body \<noteq> None then
           (let fix = (method0 = ''GET'' \<or> method0 = ''HEAD'');
                method = (if fix then ''POST'' else method0);
                rr3 = (if fix then rr2\<lparr>rr_method := method\<rparr> else rr2);
                req' = (if fix
                          then Request_SetReadOnly True
                                 (Request_SetMethod method (Request_SetReadOnly False req))
                        else req);
                content_type = (case GetHeader (rr_headers rr3) kContentType of
                                  Some v \<Rightarrow> v | None \<Rightarrow> [])
            in (rr3, request_body, content_type, method, req'))
         else (rr2, request_body, [], method0, req))"

text \<open>
  The second part attaches the body: only a body of exactly one element of kind file
  or bytes is attached, anything else is dropped. The result is the loader and the
  new value of \<^verbatim>\<open>upload_data_size_\<close>.
\<close>

definition attach_request_body ::
  "Platform \<Rightarrow> 32 word \<Rightarrow> DataElement list option \<Rightarrow> string \<Rightarrow> SimpleURLLoader \<Rightarrow>
   64 word \<Rightarrow> SimpleURLLoader \<times> 64 word" where
  "attach_request_body P request_flags request_body content_type l size0 =
     (case request_body of
        None \<Rightarrow> (l, size0)
      | Some elements \<Rightarrow>
          (case elements of
             [element] \<Rightarrow>
               if el_type element = kFile then
                 (let content_type' =
                        (if content_type = [] then
                           (let extension = path_extension P (el_path element)
                            in if extension \<noteq> [] then
                                 (case mime_type_from_extension P (tl extension) of
                                    Some t \<Rightarrow> t | None \<Rightarrow> content_type)
                               else content_type)
                         else content_type)
                  in (l\<lparr>ld_upload := Some (FileUpload (el_path element) content_type')\<rparr>,
                      size0))
               else if el_type element = kBytes then
                 (let content_type' =
                        (if content_type = [] then kContentTypeApplicationFormURLEncoded
                         else content_type)
                  in (l\<lparr>ld_upload := Some (StringUpload
                          (take (unat (el_length element - el_offset element))
                             (drop (unat (el_offset element)) (el_bytes element)))
                          content_type')\<rparr>,
                      if flag_set request_flags UR_FLAG_REPORT_UPLOAD_PROGRESS
                        then el_length element - el_offset element else size0))
               else (l, size0)
           | _ \<Rightarrow> (l, size0)))"

text \<open>The third part sets the loader's policy and starts the download.\<close>

definition start_loader :: "32 word \<Rightarrow> string \<Rightarrow> SimpleURLLoader \<Rightarrow> SimpleURLLoader" where
  "start_loader request_flags method l =
     (let l1 = l\<lparr>ld_allow_http_error_results := True\<rparr>;
          l2 = (if \<not> flag_set request_flags UR_FLAG_NO_RETRY_ON_5XX
                  then l1\<lparr>ld_retry_options :=
                             Some (2, RETRY_ON_5XX OR RETRY_ON_NETWORK_CHANGE)\<rparr>
                else l1);
          l3 = (if flag_set request_flags UR_FLAG_STOP_ON_REDIRECT
                  then l2\<lparr>ld_on_redirect := True\<rparr> else l2);
          l4 = (if flag_set request_flags UR_FLAG_REPORT_UPLOAD_PROGRESS
                  then l3\<lparr>ld_on_upload_progress := True\<rparr> else l3)
      in if flag_set request_flags UR_FLAG_NO_DOWNLOAD_DATA \<or> method = ''HEAD''
           then l4\<lparr>ld_download := HeadersOnly\<rparr>
         else l4\<lparr>ld_on_response_started := True, ld_on_download_progress := True,
                 ld_download := AsStream\<rparr>)"

definition ContinueOnOriginatingThread ::
  "Platform \<Rightarrow> int \<Rightarrow> request_id_t \<Rightarrow> URLLoaderFactoryGetter option \<Rightarrow> State \<Rightarrow>
   fault + State" where
  "ContinueOnOriginatingThread P render_frame_id request_id' loader_factory_getter' s =
     (if url_request s = None then Inr s
      else if loader_factory_getter' = None then Cancel s
      else if status s \<noteq> UR_IO_PENDING then Inl DCHECK_status_IO_PENDING
      else
        (let request_flags = req_flags (request s);
             (resource_request, request_body, content_type, method, req') =
                prepare_resource_request render_frame_id (request s);
             l0 = (SimpleURLLoader_Create resource_request)\<lparr>ld_request_id := Some request_id'\<rparr>
         in thenR (RequestManager_Add request_id' (url_request s) (client s) (g_manager s))
              (\<lambda>m.
                 let (l1, size1) = attach_request_body P request_flags request_body
                                     content_type l0 (upload_data_size s)
                 in Inr (s\<lparr>loader_factory_getter := loader_factory_getter',
                           request := req',
                           loader := Some (start_loader request_flags method l1),
                           request_id := request_id',
                           g_manager := m,
                           upload_data_size := size1\<rparr>))))"

subsection \<open>Callbacks of the transport\<close>

text \<open>
  The closures that the loader hands to \<^verbatim>\<open>OnDataReceived\<close> (resume) and \<^verbatim>\<open>OnRetry\<close>
  (start the retry) are run at once by the callbacks; they belong to the loader and
  leave the context as it is. The headers passed to a callback are a pointer, which
  may be null; the callbacks dereference it without a test.
\<close>

definition OnDownloadProgress :: "64 word \<Rightarrow> State \<Rightarrow> fault + State" where
  "OnDownloadProgress current s =
     (if status s \<noteq> UR_IO_PENDING then Inl DCHECK_status_IO_PENDING
      else if resp_status (response s) = 0 then Inr s
      else thenR (NotifyUploadProgressIfNecessary s)
             (\<lambda>s1. call_client (Client_OnDownloadProgress (url_request s1) current
                                  (download_data_size s1)) s1))"

definition OnHeadersOnly :: "HttpResponseHeaders option \<Rightarrow> State \<Rightarrow> fault + State" where
  "OnHeadersOnly headers s =
     (if status s \<noteq> UR_IO_PENDING then Inl DCHECK_status_IO_PENDING
      else case headers of
        None \<Rightarrow> Inl Null_headers
      | Some h \<Rightarrow>
          (let s1 = s\<lparr>response :=
                       Response_SetReadOnly True
                         (Response_SetResponseHeaders h
                           (Response_SetReadOnly False (response s)))\<rparr>
           in thenR (if req_method (request s1) \<noteq> ''HEAD''
                       then OnDownloadProgress 0
                              (s1\<lparr>download_data_size := hdr_content_length h\<rparr>)
                     else Inr s1)
                (\<lambda>s2. OnComplete True (s2\<lparr>cleanup_immediately := True\<rparr>))))"

text \<open>
  The assertion of \<^verbatim>\<open>OnRedirect\<close> on the flags combines them with \<^verbatim>\<open>|\<close>, so it holds
  for every value of the flags; it is no branch of the model.
\<close>

definition OnRedirect :: "string \<Rightarrow> URLResponseHead \<Rightarrow> State \<Rightarrow> fault + State" where
  "OnRedirect new_url response_head s =
     (if status s \<noteq> UR_IO_PENDING then Inl DCHECK_status_IO_PENDING
      else case rh_headers response_head of
        None \<Rightarrow> Inl Null_headers
      | Some h \<Rightarrow>
          Cancel (s\<lparr>response :=
                      Response_SetReadOnly True
                        (Response_SetResponseHeaders h
                          (Response_SetURL new_url
                            (Response_SetReadOnly False (response s))))\<rparr>))"

definition OnResponseStarted :: "string \<Rightarrow> URLResponseHead \<Rightarrow> State \<Rightarrow> fault + State" where
  "OnResponseStarted final_url response_head s =
     (if status s \<noteq> UR_IO_PENDING then Inl DCHECK_status_IO_PENDING
      else case rh_headers response_head of
        None \<Rightarrow> Inl Null_headers
      | Some h \<Rightarrow>
          Inr (s\<lparr>response :=
                   Response_SetReadOnly True
                     (Response_SetResponseHeaders h
                       (Response_SetURL final_url
                         (Response_SetReadOnly False (response s)))),
                 download_data_size := rh_content_length response_head\<rparr>))"

definition OnUploadProgress :: "64 word \<Rightarrow> 64 word \<Rightarrow> State \<Rightarrow> fault + State" where
  "OnUploadProgress position total' s =
     (if status s \<noteq> UR_IO_PENDING then Inl DCHECK_status_IO_PENDING
      else call_client (Client_OnUploadProgress (url_request s) position total')
             (s\<lparr>upload_data_size := total',
                got_upload_progress_complete :=
                  (if position = total' then True else got_upload_progress_complete s)\<rparr>))"

definition OnDataReceived :: "bytes \<Rightarrow> State \<Rightarrow> fault + State" where
  "OnDataReceived string_piece s =
     (if status s \<noteq> UR_IO_PENDING then Inl DCHECK_status_IO_PENDING
      else call_client (Client_OnDownloadData (url_request s) string_piece) s)"

definition OnRetry :: "State \<Rightarrow> fault + State" where
  "OnRetry s = (if status s \<noteq> UR_IO_PENDING then Inl DCHECK_status_IO_PENDING else Inr s)"

section \<open>Events\<close>

text \<open>
  What can happen to a request: the owner calls \<^verbatim>\<open>Start\<close> or \<^verbatim>\<open>Cancel\<close> on the handle,
  a posted task runs on the UI thread or back on the originating thread, or the loader
  invokes one of the callbacks bound to it. A completion carries the results that the
  loader reports from then on.
\<close>

datatype TransportEvent =
    HeadersOnlyDone "HttpResponseHeaders option" LoaderOutcome
  | Redirect string URLResponseHead
  | ResponseStarted string URLResponseHead
  | UploadProgress "64 word" "64 word"
  | DownloadProgress "64 word"
  | DataReceived bytes
  | Complete bool LoaderOutcome
  | Retry

datatype Event =
    Call_Start
  | Call_Cancel
  | Run_UI_task
  | Run_origin_task
  | Transport TransportEvent

text \<open>
  A callback can only be invoked by a loader it was bound to: the redirect and progress
  callbacks by \<^verbatim>\<open>SetOn\<dots>Callback\<close>, the headers callback by \<^verbatim>\<open>DownloadHeadersOnly\<close>, and
  the stream consumer's methods by \<^verbatim>\<open>DownloadAsStream\<close>.
\<close>

fun callback_bound :: "SimpleURLLoader \<Rightarrow> TransportEvent \<Rightarrow> bool" where
  "callback_bound l (HeadersOnlyDone h out) = (ld_download l = HeadersOnly)"
| "callback_bound l (Redirect u rh) = ld_on_redirect l"
| "callback_bound l (ResponseStarted u rh) = ld_on_response_started l"
| "callback_bound l (UploadProgress p t) = ld_on_upload_progress l"
| "callback_bound l (DownloadProgress c) = ld_on_download_progress l"
| "callback_bound l (DataReceived b) = (ld_download l = AsStream)"
| "callback_bound l (Complete b out) = (ld_download l = AsStream)"
| "callback_bound l Retry = (ld_download l = AsStream)"

definition loader_finished :: "LoaderOutcome \<Rightarrow> SimpleURLLoader \<Rightarrow> SimpleURLLoader" where
  "loader_finished out l =
     l\<lparr>ld_final_url := out_final_url out, ld_net_error := out_net_error out,
       ld_loaded_from_cache := out_loaded_from_cache out\<rparr>"

fun deliver :: "SimpleURLLoader \<Rightarrow> TransportEvent \<Rightarrow> State \<Rightarrow> fault + State" where
  "deliver l (HeadersOnlyDone h out) s =
     OnHeadersOnly h (s\<lparr>loader := Some (loader_finished out l)\<rparr>)"
| "deliver l (Redirect u rh) s = OnRedirect u rh s"
| "deliver l (ResponseStarted u rh) s = OnResponseStarted u rh s"
| "deliver l (UploadProgress p t) s = OnUploadProgress p t s"
| "deliver l (DownloadProgress c) s = OnDownloadProgress c s"
| "deliver l (DataReceived b) s = OnDataReceived b s"
| "deliver l (Complete b out) s =
     OnComplete b (s\<lparr>loader := Some (loader_finished out l)\<rparr>)"
| "deliver l Retry s = OnRetry s"

fun step :: "Platform \<Rightarrow> Event \<Rightarrow> State \<Rightarrow> fault + State" where
  "step P Call_Start s = Inr (snd (Start P s))"
| "step P Call_Cancel s = Cancel s"
| "step P Run_UI_task s =
     (case ui_tasks s of
        [] \<Rightarrow> Inr s
      | (frame', context') # ts \<Rightarrow>
          (let (args, counter') =
                 GetURLLoaderFactoryGetterOnUIThread frame' (next_request_id s)
           in Inr (s\<lparr>ui_tasks := ts, next_request_id := counter',
                     origin_tasks := origin_tasks s @ [args]\<rparr>)))"
| "step P Run_origin_task s =
     (case origin_tasks s of
        [] \<Rightarrow> Inr s
      | (render_frame_id, request_id', getter) # ts \<Rightarrow>
          ContinueOnOriginatingThread P render_frame_id request_id' getter
            (s\<lparr>origin_tasks := ts\<rparr>))"
| "step P (Transport ev) s =
     (case loader s of
        None \<Rightarrow> Inr s
      | Some l \<Rightarrow> if callback_bound l ev then deliver l ev s else Inr s)"

fun run :: "Platform \<Rightarrow> Event list \<Rightarrow> State \<Rightarrow> fault + State" where
  "run P [] s = Inr s"
| "run P (e # es) s = thenR (step P e s) (run P es)"

section \<open>Invariant of the lifecycle\<close>

fun is_completion :: "ClientCall \<Rightarrow> bool" where
  "is_completion (Client_OnRequestComplete r) = True"
| "is_completion c = False"

fun is_upload_progress :: "ClientCall \<Rightarrow> bool" where
  "is_upload_progress (Client_OnUploadProgress r p t) = True"
| "is_upload_progress c = False"

fun is_download_progress :: "ClientCall \<Rightarrow> bool" where
  "is_download_progress (Client_OnDownloadProgress r c t) = True"
| "is_download_progress c = False"

fun is_download_data :: "ClientCall \<Rightarrow> bool" where
  "is_download_data (Client_OnDownloadData r b) = True"
| "is_download_data c = False"

definition completions :: "State \<Rightarrow> nat" where
  "completions s = length (filter is_completion (client_calls s))"

definition torn_down :: "State \<Rightarrow> bool" where
  "torn_down s = (url_request s = None)"

text \<open>
  What the configuration step leaves on the loader, read against the descriptor: the
  download mode chosen from the no-download-data flag and the method, the callbacks
  bound in each mode and for each flag, and a method that can carry the body.
\<close>

definition headers_only_request :: "Request \<Rightarrow> bool" where
  "headers_only_request req =
     (flag_set (req_flags req) UR_FLAG_NO_DOWNLOAD_DATA \<or> req_method req = ''HEAD'')"

definition config_ok :: "Request \<Rightarrow> SimpleURLLoader \<Rightarrow> bool" where
  "config_ok req l =
     (ld_download l = (if headers_only_request req then HeadersOnly else AsStream) \<and>
      ld_on_response_started l = (ld_download l = AsStream) \<and>
      ld_on_download_progress l = (ld_download l = AsStream) \<and>
      ld_on_redirect l = flag_set (req_flags req) UR_FLAG_STOP_ON_REDIRECT \<and>
      ld_on_upload_progress l = flag_set (req_flags req) UR_FLAG_REPORT_UPLOAD_PROGRESS \<and>
      (req_postdata req = None \<or> (req_method req \<noteq> ''GET'' \<and> req_method req \<noteq> ''HEAD'')))"

text \<open>
  The identifier of a context is either the initial \<open>0\<close> or one that the manager holds.
\<close>

definition registered :: "State \<Rightarrow> bool" where
  "registered s =
     (sint (request_id s) \<le> sint kInitialRequestID \<and> g_manager s (request_id s) \<noteq> None)"

text \<open>
  A context either still holds its request (it is live: pending, with its client, and
  nothing has been completed; before the configuration step it has no loader, no
  identifier and has made no call), or it has been torn down: the status is terminal,
  the loader is gone, and the client has been told exactly once. A headers-only
  request never delivers data, and no download progress while it is live.
\<close>

definition lifecycle_inv :: "State \<Rightarrow> bool" where
  "lifecycle_inv s =
     ((if torn_down s
         then loader s = None \<and> status s \<in> {UR_SUCCESS, UR_FAILED, UR_CANCELED} \<and>
              completions s = 1 \<and>
              finalizations s = (if status s = UR_CANCELED then 0 else 1)
       else status s = UR_IO_PENDING \<and> client s \<noteq> None \<and> completions s = 0 \<and>
            finalizations s = 0 \<and>
            (case loader s of
               None \<Rightarrow> request_id s = 0 \<and> client_calls s = []
             | Some l \<Rightarrow> registered s \<and> config_ok (request s) l)) \<and>
      (if headers_only_request (request s)
         then filter is_download_data (client_calls s) = [] \<and>
              (torn_down s \<or> filter is_download_progress (client_calls s) = [])
       else True))"

text \<open>
  The upload notification that \<^verbatim>\<open>NotifyUploadProgressIfNecessary\<close> adds in a state, as a
  list of calls: one call reporting the whole expected size, or none.
\<close>

definition upload_note :: "State \<Rightarrow> ClientCall list" where
  "upload_note s =
     (if \<not> got_upload_progress_complete s \<and> 0 < sint (upload_data_size s)
        then [Client_OnUploadProgress (url_request s) (upload_data_size s)
                (upload_data_size s)]
      else [])"

definition removable :: "State \<Rightarrow> bool" where
  "removable s = (request_id s = 0 \<or> registered s)"

text \<open>
  The method a descriptor has once the configuration step has passed: POST when a body
  is attached to a GET or a HEAD, the descriptor's own method otherwise.
\<close>

definition method_after_config :: "Request \<Rightarrow> string" where
  "method_after_config req =
     (if req_postdata req \<noteq> None \<and> (req_method req = ''GET'' \<or> req_method req = ''HEAD'')
        then ''POST'' else req_method req)"

definition content_type_of :: "Request \<Rightarrow> string" where
  "content_type_of req =
     (if req_postdata req = None then []
      else case GetHeader (req_headers req) kContentType of Some v \<Rightarrow> v | None \<Rightarrow> [])"

text \<open>
  The events that end a live request: a cancellation by the owner, a failed resolution
  of the loader factory (the posted task carries no getter), and the loader's
  completion, headers-only completion and redirect callbacks when they are bound and
  carry their headers.
\<close>

fun ends_transport :: "TransportEvent \<Rightarrow> bool" where
  "ends_transport (Complete b out) = True"
| "ends_transport (HeadersOnlyDone h out) = (h \<noteq> None)"
| "ends_transport (Redirect u rh) = (rh_headers rh \<noteq> None)"
| "ends_transport ev = False"

fun terminal_event :: "State \<Rightarrow> Event \<Rightarrow> bool" where
  "terminal_event s Call_Cancel = True"
| "terminal_event s Run_origin_task =
     (case origin_tasks s of [] \<Rightarrow> False | (rf, i, g) # ts \<Rightarrow> g = None)"
| "terminal_event s (Transport ev) =
     (case loader s of None \<Rightarrow> False | Some l \<Rightarrow> callback_bound l ev \<and> ends_transport ev)"
| "terminal_event s e = False"

text \<open>
  What a request keeps of the handle and the descriptor it was created with: the
  handle until teardown, and every field of the descriptor but the method, which is
  the descriptor's or the one the configuration step rewrites it to.
\<close>

definition descriptor_inv :: "handle \<Rightarrow> Request \<Rightarrow> State \<Rightarrow> bool" where
  "descriptor_inv h r s =
     ((url_request s = None \<or> url_request s = Some h) \<and>
      req_url (request s) = req_url r \<and> req_flags (request s) = req_flags r \<and>
      req_headers (request s) = req_headers r \<and>
      req_postdata (request s) = req_postdata r \<and>
      (req_method (request s) = req_method r \<or>
       req_method (request s) = method_after_config r))"

text \<open>The response record holds the results the loader reported at completion.\<close>

definition finalized_with :: "LoaderOutcome \<Rightarrow> State \<Rightarrow> bool" where
  "finalized_with out s =
     (resp_url (response s) = out_final_url out \<and>
      resp_error (response s) = out_net_error out \<and>
      response_was_cached s = out_loaded_from_cache out)"

text \<open>
  The two ways a step takes the status out of the pending state. A cancellation (by the
  owner, by a failed resolution or by a redirect under stop-on-redirect) sets the error
  to aborted and writes neither the cached flag nor, but for the redirect target, the
  URL. A completion reported by the loader writes the final URL, the error code and the
  cached flag from the loader's results.
\<close>

definition cancelled_transition :: "State \<Rightarrow> Event \<Rightarrow> State \<Rightarrow> bool" where
  "cancelled_transition s e s' =
     (status s' = UR_CANCELED \<and> resp_error (response s') = ERR_ABORTED \<and>
      response_was_cached s' = response_was_cached s \<and> finalizations s' = 0 \<and>
      (case e of
         Transport (Redirect u rh) \<Rightarrow> resp_url (response s') = u
       | _ \<Rightarrow> resp_url (response s') = resp_url (response s)))"

definition completed_transition :: "Event \<Rightarrow> State \<Rightarrow> bool" where
  "completed_transition e s' =
     (case e of
        Transport (Complete b out) \<Rightarrow>
          status s' = (if b then UR_SUCCESS else UR_FAILED) \<and> finalized_with out s' \<and>
          finalizations s' = 1
      | Transport (HeadersOnlyDone hs out) \<Rightarrow>
          status s' = UR_SUCCESS \<and> finalized_with out s' \<and> finalizations s' = 1
      | _ \<Rightarrow> False)"

text \<open>
  The calls received by the client other than the download-data calls, and the shape
  they have once the client has been told that the whole body was sent: that
  notification first, then download progress only.
\<close>

definition nondata_calls :: "State \<Rightarrow> ClientCall list" where
  "nondata_calls s = filter (\<lambda>c. \<not> is_download_data c) (client_calls s)"

definition upload_inv :: "handle \<Rightarrow> 64 word \<Rightarrow> State \<Rightarrow> bool" where
  "upload_inv h n s =
     (if torn_down s
        then status s \<noteq> UR_SUCCESS \<or>
             nondata_calls s =
               Client_OnUploadProgress (Some h) n n #
                 filter is_download_progress (client_calls s) @
                 [Client_OnRequestComplete (Some h)]
      else (case loader s of
              None \<Rightarrow> \<not> got_upload_progress_complete s
            | Some l \<Rightarrow>
                upload_data_size s = n \<and>
                (if got_upload_progress_complete s
                   then nondata_calls s =
                          Client_OnUploadProgress (Some h) n n #
                            filter is_download_progress (client_calls s)
                 else nondata_calls s = [])))"

text \<open>The loader's own (timer-driven) upload notifications, as events.\<close>

fun is_upload_event :: "Event \<Rightarrow> bool" where
  "is_upload_event (Transport (UploadProgress p t)) = True"
| "is_upload_event e = False"

text \<open>
  Where the final upload notification stands among the calls: the first call that is
  not a download-data call, if it is an upload notification, is followed at once by a
  call that is not a download-data call either.
\<close>

definition upload_followed :: "ClientCall list \<Rightarrow> bool" where
  "upload_followed cs =
     (case dropWhile is_download_data cs of
        [] \<Rightarrow> True
      | c # post \<Rightarrow> \<not> is_upload_progress c \<or> (post \<noteq> [] \<and> \<not> is_download_data (hd post)))"

text \<open>
  A request that has not told, and will not tell, the client of any upload: no upload
  notification was made, and while the request is live the expected size of the upload
  is not positive.
\<close>

definition unnotified :: "State \<Rightarrow> bool" where
  "unnotified s =
     (filter is_upload_progress (client_calls s) = [] \<and>
      (torn_down s \<or> \<not> 0 < sint (upload_data_size s)))"

section \<open>Concrete inputs\<close>

text \<open>Inputs at which the theorems below are evaluated.\<close>

definition c3_history :: "manager_call list" where
  "c3_history =
     [CallAdd (- 3) (Some 1) (Some 7), CallAdd (- 4) (Some 2) (Some 8),
      CallRemove (- 3), CallRemove 5]"

definition w_platform :: Platform where
  "w_platform =
     \<lparr> url_is_valid = (\<lambda>u. u \<noteq> ''not a url''), path_extension = (\<lambda>p. []),
       mime_type_from_extension = (\<lambda>e. None) \<rparr>"

definition w_bytes_element :: DataElement where
  "w_bytes_element =
     \<lparr> el_type = kBytes, el_path = [], el_bytes = [1, 2, 3], el_offset = 0, el_length = 3 \<rparr>"

definition w_pipe_element :: DataElement where
  "w_pipe_element =
     \<lparr> el_type = kDataPipe, el_path = [], el_bytes = [], el_offset = 0, el_length = 0 \<rparr>"

definition w_request :: "string \<Rightarrow> DataElement list option \<Rightarrow> 32 word \<Rightarrow> Request" where
  "w_request method body fl =
     \<lparr> req_url = ''https://example.test/resource'', req_method = method, req_headers = [],
       req_postdata = body, req_flags = fl, req_read_only = False \<rparr>"

definition w_context :: "Request \<Rightarrow> State" where
  "w_context req = Context_new 1 None req 7 None Map.empty kInitialRequestID"

definition w_outcome :: LoaderOutcome where
  "w_outcome =
     \<lparr> out_final_url = ''https://example.test/final'', out_net_error = 0,
       out_loaded_from_cache = True \<rparr>"

definition w_headers :: "int \<Rightarrow> HttpResponseHeaders" where
  "w_headers code = \<lparr> hdr_response_code = code, hdr_content_length = 10, hdr_lines = [] \<rparr>"

definition w_head :: "int \<Rightarrow> URLResponseHead" where
  "w_head code = \<lparr> rh_headers = Some (w_headers code), rh_content_length = 10 \<rparr>"

text \<open>
  A request started, resolved on the UI thread and configured on its own thread; and
  the same request when the owner then cancels it.
\<close>

definition w_configure :: "Event list" where
  "w_configure = [Call_Start, Run_UI_task, Run_origin_task]"

definition w_configured :: "Request \<Rightarrow> State" where
  "w_configured req = projr (run w_platform w_configure (w_context req))"

definition w_resolved :: "Request \<Rightarrow> State" where
  "w_resolved req = projr (run w_platform [Call_Start, Run_UI_task] (w_context req))"

definition w_cancelled :: "Request \<Rightarrow> State" where
  "w_cancelled req = projr (run w_platform (w_configure @ [Call_Cancel]) (w_context req))"

definition w_bad_request :: Request where
  "w_bad_request = (w_request ''GET'' None 0)\<lparr>req_url := ''not a url''\<rparr>"

text \<open>A configured request that has received its response head, before and after a cancel.\<close>

definition w_responding :: "Event list" where
  "w_responding =
     w_configure @ [Transport (ResponseStarted ''https://example.test/moved'' (w_head 200))]"

definition w_before_cancel :: State where
  "w_before_cancel =
     projr (run w_platform w_responding (w_context (w_request ''GET'' None 0)))"

definition w_after_cancel :: State where
  "w_after_cancel =
     projr (run w_platform (w_responding @ [Call_Cancel]) (w_context (w_request ''GET'' None 0)))"

text \<open>A configured request whose headers-only fetch has completed with the given status code.\<close>

definition w_headers_done :: "Request \<Rightarrow> int \<Rightarrow> State" where
  "w_headers_done req code =
     projr (run w_platform
       (w_configure @ [Transport (HeadersOnlyDone (Some (w_headers code)) w_outcome)])
       (w_context req))"

text \<open>
  An upload that completes before the loader has reported any upload progress: the
  response head, a chunk of data, a download progress report and the completion.
\<close>

definition w_empty_element :: DataElement where
  "w_empty_element =
     \<lparr> el_type = kBytes, el_path = [], el_bytes = [], el_offset = 0, el_length = 0 \<rparr>"

definition w_quick_upload :: "Event list" where
  "w_quick_upload =
     w_configure @
     [Transport (ResponseStarted ''https://example.test/resource'' (w_head 200)),
      Transport (DataReceived [1]), Transport (DownloadProgress 1),
      Transport (Complete True w_outcome)]"

definition w_uploaded :: "Request \<Rightarrow> State" where
  "w_uploaded req = projr (run w_platform w_quick_upload (w_context req))"

text \<open>The same upload before its completion.\<close>

definition w_slow_upload :: "Event list" where
  "w_slow_upload =
     w_configure @
     [Transport (ResponseStarted ''https://example.test/resource'' (w_head 200)),
      Transport (DataReceived [1]), Transport (DownloadProgress 1)]"

definition w_uploading :: "Request \<Rightarrow> State" where
  "w_uploading req = projr (run w_platform w_slow_upload (w_context req))"

section \<open>Auxiliary facts\<close>

lemma thenR_Inr_iff: "thenR r k = Inr y \<longleftrightarrow> (\<exists>x. r = Inr x \<and> k x = Inr y)"
  by (cases r) (simp_all add: thenR_def)

lemma thenR_simps: "thenR (Inl f) k = Inl f" "thenR (Inr x) k = k x"
  by (simp_all add: thenR_def)

lemma sint_kInitialRequestID: "sint kInitialRequestID = - 2"
  by (simp add: kInitialRequestID_def)

section \<open>The request manager\<close>

lemma manager_call_apply_entry:
  assumes "manager_call_apply c m0 = Inr m" and "sint i \<le> sint kInitialRequestID"
  shows "m i = spec_entry_after i c (m0 i)"
proof (cases c)
  case (CallAdd j r cl)
  with assms show ?thesis
    by (auto simp: RequestManager_Add_def split: if_splits)
next
  case (CallRemove j)
  with assms show ?thesis
    by (auto simp: RequestManager_Remove_def split: if_splits)
qed

lemma manager_run_entry:
  "manager_run cs m0 = Inr m \<Longrightarrow> sint i \<le> sint kInitialRequestID \<Longrightarrow>
   m i = fold (spec_entry_after i) cs (m0 i)"
proof (induction cs arbitrary: m0)
  case Nil
  then show ?case by simp
next
  case (Cons c cs)
  from Cons.prems(1) obtain m1 where
    c: "manager_call_apply c m0 = Inr m1" and rest: "manager_run cs m1 = Inr m"
    by (auto simp: thenR_Inr_iff)
  from Cons.IH [OF rest Cons.prems(2)] manager_call_apply_entry [OF c Cons.prems(2)]
  show ?case by simp
qed

text \<open>
  C3. After any history of add and remove calls that the manager accepts, started on
  the empty table, a lookup of an identifier at or below the boundary \<open>-2\<close> returns
  exactly the entry of the latest add of that identifier that no remove has followed,
  and nothing when there is none. For an identifier above the boundary, lookup
  returns nothing and remove leaves the table as it is, whatever the table holds.
\<close>

theorem registry_lookup_matches_history:
  assumes "manager_run cs Map.empty = Inr m"
  shows "(sint i \<le> - 2 \<longrightarrow> RequestManager_Get i m = spec_lookup i cs) \<and>
         (- 2 < sint j \<longrightarrow>
            RequestManager_Get j m' = None \<and> RequestManager_Remove j m' = Inr m')"
proof (intro conjI impI)
  assume le: "sint i \<le> - 2"
  then have "sint i \<le> sint kInitialRequestID" by (simp add: sint_kInitialRequestID)
  from manager_run_entry [OF assms this] le
  show "RequestManager_Get i m = spec_lookup i cs"
    by (simp add: RequestManager_Get_def spec_lookup_def sint_kInitialRequestID)
next
  assume "- 2 < sint j"
  then show "RequestManager_Get j m' = None"
    by (simp add: RequestManager_Get_def sint_kInitialRequestID)
next
  assume "- 2 < sint j"
  then show "RequestManager_Remove j m' = Inr m'"
    by (simp add: RequestManager_Remove_def sint_kInitialRequestID)
qed

lemma c3_run: "manager_run c3_history Map.empty = Inr [- 4 \<mapsto> (Some 2, Some 8)]"
  by (simp add: c3_history_def thenR_def RequestManager_Add_def RequestManager_Remove_def
      kInitialRequestID_def)

theorem registry_lookup_matches_history_witness:
  "manager_run c3_history Map.empty = Inr [- 4 \<mapsto> (Some 2, Some 8)] \<and>
   RequestManager_Get (- 4) [- 4 \<mapsto> (Some 2, Some 8)] = Some (Some 2, Some 8) \<and>
   spec_lookup (- 4) c3_history = Some (Some 2, Some 8) \<and>
   RequestManager_Get (- 3) [- 4 \<mapsto> (Some 2, Some 8)] = None \<and>
   spec_lookup (- 3) c3_history = None \<and>
   RequestManager_Get 0 [0 \<mapsto> (Some 9, Some 9)] = None \<and>
   RequestManager_Remove 0 [0 \<mapsto> (Some 9, Some 9)] = Inr [0 \<mapsto> (Some 9, Some 9)]"
  using registry_lookup_matches_history [OF c3_run, of "- 4" 0 "[0 \<mapsto> (Some 9, Some 9)]"]
        registry_lookup_matches_history [OF c3_run, of "- 3" 0 "[0 \<mapsto> (Some 9, Some 9)]"]
        c3_run
  by (simp add: spec_lookup_def c3_history_def)

section \<open>Teardown, completion and cancellation\<close>

lemma call_client_Inr:
  "call_client c s = Inr s' \<longleftrightarrow> (client s \<noteq> None \<and> s' = s\<lparr>client_calls := client_calls s @ [c]\<rparr>)"
  by (auto simp: call_client_def split: option.splits)

lemma call_client_ok:
  "client s \<noteq> None \<Longrightarrow> call_client c s = Inr (s\<lparr>client_calls := client_calls s @ [c]\<rparr>)"
  by (auto simp: call_client_def split: option.splits)

lemma Remove_ok:
  "removable s \<Longrightarrow>
   RequestManager_Remove (request_id s) (g_manager s) =
     Inr (if request_id s = 0 then g_manager s else (g_manager s)(request_id s := None))"
  by (auto simp: removable_def registered_def RequestManager_Remove_def kInitialRequestID_def)

lemma Cleanup_live:
  assumes "url_request s \<noteq> None" and "removable s"
  shows "\<exists>s'. Cleanup s = Inr s' \<and> url_request s' = None \<and> loader s' = None \<and>
           status s' = status s \<and> client_calls s' = client_calls s \<and>
           finalizations s' = finalizations s \<and> response s' = response s \<and>
           response_was_cached s' = response_was_cached s \<and> request s' = request s \<and>
           g_manager s' = (if request_id s = 0 then g_manager s
                           else (g_manager s)(request_id s := None)) \<and>
           download_data_size s' = download_data_size s"
  using assms
  by (auto simp: Cleanup_def Remove_ok thenR_simps Let_def split: option.splits)

lemma Notify_eq:
  "client s \<noteq> None \<Longrightarrow>
   NotifyUploadProgressIfNecessary s =
     Inr (if upload_note s = [] then s
          else s\<lparr>client_calls := client_calls s @ upload_note s,
                 got_upload_progress_complete := True\<rparr>)"
  by (auto simp: NotifyUploadProgressIfNecessary_def upload_note_def call_client_ok thenR_simps)

lemma OnComplete_live:
  assumes "url_request s \<noteq> None" and "client s \<noteq> None" and "removable s"
    and "status s = UR_IO_PENDING \<longrightarrow> loader s \<noteq> None"
  shows "\<exists>s'. OnComplete b s = Inr s' \<and> url_request s' = None \<and> loader s' = None \<and>
           client_calls s' = client_calls s @ (if b then upload_note s else []) @
                               [Client_OnRequestComplete (url_request s)] \<and>
           request s' = request s \<and>
           download_data_size s' = download_data_size s \<and>
           g_manager s' = (if request_id s = 0 then g_manager s
                           else (g_manager s)(request_id s := None)) \<and>
           (if status s = UR_IO_PENDING
              then status s' = (if b then UR_SUCCESS else UR_FAILED) \<and>
                   finalizations s' = Suc (finalizations s) \<and>
                   (\<forall>l. loader s = Some l \<longrightarrow>
                      response s' = (response s)\<lparr>resp_url := ld_final_url l,
                                       resp_error := ld_net_error l, resp_read_only := True\<rparr> \<and>
                      response_was_cached s' = ld_loaded_from_cache l)
            else status s' = status s \<and> finalizations s' = finalizations s \<and>
                 response s' = response s \<and>
                 response_was_cached s' = response_was_cached s)"
proof -
  obtain s1 where s1: "(if status s = UR_IO_PENDING
           then (case loader s of
                   None \<Rightarrow> Inl Null_loader
                 | Some l \<Rightarrow>
                     Inr (s\<lparr>status := (if b then UR_SUCCESS else UR_FAILED),
                            response :=
                              Response_SetReadOnly True
                                (Response_SetError (ld_net_error l)
                                  (Response_SetURL (ld_final_url l)
                                    (Response_SetReadOnly False (response s)))),
                            response_was_cached := ld_loaded_from_cache l,
                            finalizations := Suc (finalizations s)\<rparr>))
         else Inr s) = Inr s1"
    using assms(4) by (cases "status s = UR_IO_PENDING") auto
  have s1_same: "url_request s1 = url_request s" "client s1 = client s" "removable s1"
    "upload_note s1 = upload_note s" "client_calls s1 = client_calls s" "request s1 = request s"
    "request_id s1 = request_id s" "g_manager s1 = g_manager s" "loader s1 = loader s"
    "download_data_size s1 = download_data_size s"
    using s1 assms(3)
    by (auto simp: removable_def registered_def upload_note_def split: if_splits option.splits)
  define s2 where "s2 = (if b then (if upload_note s1 = [] then s1
          else s1\<lparr>client_calls := client_calls s1 @ upload_note s1,
                 got_upload_progress_complete := True\<rparr>) else s1)"
  have n: "(if b then NotifyUploadProgressIfNecessary s1 else Inr s1) = Inr s2"
    using assms(2) s1_same by (simp add: s2_def Notify_eq)
  define s3 where "s3 = s2\<lparr>client_calls := client_calls s2 @ [Client_OnRequestComplete (url_request s2)]\<rparr>"
  have c: "call_client (Client_OnRequestComplete (url_request s2)) s2 = Inr s3"
    using assms(2) s1_same by (simp add: s3_def s2_def call_client_ok)
  have live3: "url_request s3 \<noteq> None" "removable s3"
    using assms(1) s1_same by (auto simp: s3_def s2_def removable_def registered_def)
  from Cleanup_live [OF live3] obtain s' where s': "Cleanup s3 = Inr s'"
    and f: "url_request s' = None" "loader s' = None" "status s' = status s3"
      "client_calls s' = client_calls s3" "finalizations s' = finalizations s3"
      "response s' = response s3" "response_was_cached s' = response_was_cached s3"
      "request s' = request s3"
      "g_manager s' = (if request_id s3 = 0 then g_manager s3
                           else (g_manager s3)(request_id s3 := None))"
      "download_data_size s' = download_data_size s3"
    by blast
  from assms(1) obtain h where h: "url_request s = Some h" by auto
  have run: "OnComplete b s = Inr s'"
    unfolding OnComplete_def using h s1 n c s' by (simp add: thenR_simps)
  have s3_s1: "status s3 = status s1" "finalizations s3 = finalizations s1"
    "response s3 = response s1" "response_was_cached s3 = response_was_cached s1"
    "request s3 = request s1" "request_id s3 = request_id s1" "g_manager s3 = g_manager s1"
    "loader s3 = loader s1" "download_data_size s3 = download_data_size s1"
    "client_calls s3 = client_calls s1 @ (if b then upload_note s1 else []) @
                               [Client_OnRequestComplete (url_request s1)]"
    by (auto simp: s3_def s2_def)
  show ?thesis
  proof (intro exI conjI)
    show "OnComplete b s = Inr s'" by (rule run)
    show "(if status s = UR_IO_PENDING
              then status s' = (if b then UR_SUCCESS else UR_FAILED) \<and>
                   finalizations s' = Suc (finalizations s) \<and>
                   (\<forall>l. loader s = Some l \<longrightarrow>
                      response s' = (response s)\<lparr>resp_url := ld_final_url l,
                                       resp_error := ld_net_error l, resp_read_only := True\<rparr> \<and>
                      response_was_cached s' = ld_loaded_from_cache l)
            else status s' = status s \<and> finalizations s' = finalizations s \<and>
                 response s' = response s \<and>
                 response_was_cached s' = response_was_cached s)"
      using s1 f s3_s1
      by (auto simp: Response_SetReadOnly_def Response_SetError_def Response_SetURL_def
          split: if_splits option.splits)
  qed (simp_all add: f s3_s1 s1_same)
qed


lemma Cancel_torn_down: "url_request s = None \<Longrightarrow> Cancel s = Inr s"
  by (simp add: Cancel_def)

lemma OnComplete_torn_down: "url_request s = None \<Longrightarrow> OnComplete b s = Inr s"
  by (simp add: OnComplete_def)

lemma Cancel_live:
  assumes "url_request s \<noteq> None" and "status s = UR_IO_PENDING" and "client s \<noteq> None"
    and "removable s"
  shows "\<exists>s'. Cancel s = Inr s' \<and> url_request s' = None \<and> loader s' = None \<and>
           status s' = UR_CANCELED \<and>
           client_calls s' = client_calls s @ [Client_OnRequestComplete (url_request s)] \<and>
           finalizations s' = finalizations s \<and>
           response s' = (response s)\<lparr>resp_error := ERR_ABORTED, resp_read_only := True\<rparr> \<and>
           response_was_cached s' = response_was_cached s \<and> request s' = request s \<and>
           download_data_size s' = download_data_size s \<and>
           g_manager s' = (if request_id s = 0 then g_manager s
                           else (g_manager s)(request_id s := None))"
proof -
  define sc where "sc = s\<lparr>status := UR_CANCELED,
                response :=
                  Response_SetReadOnly True
                    (Response_SetError ERR_ABORTED
                      (Response_SetReadOnly False (response s))),
                cleanup_immediately := True\<rparr>"
  have pre: "url_request sc \<noteq> None" "client sc \<noteq> None" "removable sc"
    "status sc = UR_IO_PENDING \<longrightarrow> loader sc \<noteq> None"
    using assms by (simp_all add: sc_def removable_def registered_def)
  from OnComplete_live [OF pre, of False] obtain s' where
    "OnComplete False sc = Inr s'" and f: "url_request s' = None" "loader s' = None"
    "client_calls s' = client_calls sc @ [Client_OnRequestComplete (url_request sc)]"
    "request s' = request sc" "download_data_size s' = download_data_size sc"
    "g_manager s' = (if request_id sc = 0 then g_manager sc
                           else (g_manager sc)(request_id sc := None))"
    "status s' = status sc" "finalizations s' = finalizations sc"
    "response s' = response sc" "response_was_cached s' = response_was_cached sc"
    by (auto simp: sc_def)
  moreover from assms(1) obtain h where "url_request s = Some h" by auto
  ultimately have "Cancel s = Inr s'"
    using assms(2) by (simp add: Cancel_def sc_def)
  with f show ?thesis
    by (simp add: sc_def Response_SetReadOnly_def Response_SetError_def)
qed

text \<open>
  A cancelled request destroys its loader within the call: nothing is handed to the
  deferred deletion or release of the originating thread.
\<close>

lemma Cleanup_immediate:
  "Cleanup s = Inr s' \<Longrightarrow> cleanup_immediately s \<Longrightarrow>
   delete_soon s' = delete_soon s \<and> release_soon s' = release_soon s"
  by (auto simp: Cleanup_def thenR_Inr_iff Let_def split: if_splits option.splits)

lemma Cleanup_deferred:
  "Cleanup s = Inr s' \<Longrightarrow> \<not> cleanup_immediately s \<Longrightarrow> loader s = Some l \<Longrightarrow>
   delete_soon s' = delete_soon s @ [l]"
  by (auto simp: Cleanup_def thenR_Inr_iff Let_def split: if_splits option.splits)

lemma OnComplete_immediate:
  assumes "OnComplete b s = Inr s'" and "cleanup_immediately s"
  shows "delete_soon s' = delete_soon s \<and> release_soon s' = release_soon s"
proof (cases "url_request s = None")
  case True
  with assms(1) show ?thesis by (simp add: OnComplete_def)
next
  case False
  with assms(1) obtain s1 s2 s3 where
    s1: "(if status s = UR_IO_PENDING
           then (case loader s of
                   None \<Rightarrow> Inl Null_loader
                 | Some l \<Rightarrow>
                     Inr (s\<lparr>status := (if b then UR_SUCCESS else UR_FAILED),
                            response :=
                              Response_SetReadOnly True
                                (Response_SetError (ld_net_error l)
                                  (Response_SetURL (ld_final_url l)
                                    (Response_SetReadOnly False (response s)))),
                            response_was_cached := ld_loaded_from_cache l,
                            finalizations := Suc (finalizations s)\<rparr>))
         else Inr s) = Inr s1"
    and s2: "(if b then NotifyUploadProgressIfNecessary s1 else Inr s1) = Inr s2"
    and s3: "call_client (Client_OnRequestComplete (url_request s2)) s2 = Inr s3"
    and s': "Cleanup s3 = Inr s'"
    by (auto simp: OnComplete_def thenR_Inr_iff)
  have 1: "cleanup_immediately s1" "delete_soon s1 = delete_soon s"
    "release_soon s1 = release_soon s"
    using s1 assms(2) by (auto split: if_splits option.splits)
  have 2: "cleanup_immediately s2" "delete_soon s2 = delete_soon s1"
    "release_soon s2 = release_soon s1"
    using s2 1(1)
    by (auto simp: NotifyUploadProgressIfNecessary_def thenR_Inr_iff call_client_Inr
        split: if_splits)
  have 3: "cleanup_immediately s3" "delete_soon s3 = delete_soon s2"
    "release_soon s3 = release_soon s2"
    using s3 2(1) by (auto simp: call_client_Inr)
  from Cleanup_immediate [OF s' 3(1)] 1 2 3 show ?thesis by simp
qed

lemma Cancel_immediate:
  assumes "Cancel s = Inr s'"
  shows "delete_soon s' = delete_soon s \<and> release_soon s' = release_soon s"
proof (cases "url_request s = None")
  case True
  with assms show ?thesis by (simp add: Cancel_def)
next
  case False
  with assms have "OnComplete False
             (s\<lparr>status := UR_CANCELED,
                response :=
                  Response_SetReadOnly True
                    (Response_SetError ERR_ABORTED
                      (Response_SetReadOnly False (response s))),
                cleanup_immediately := True\<rparr>) = Inr s'"
    by (simp add: Cancel_def split: if_splits)
  from OnComplete_immediate [OF this] show ?thesis by simp
qed

lemma OnRedirect_immediate:
  assumes "OnRedirect u rh s = Inr s'"
  shows "delete_soon s' = delete_soon s \<and> release_soon s' = release_soon s"
  using assms Cancel_immediate
  by (fastforce simp: OnRedirect_def split: if_splits option.splits)

section \<open>Configuration of the transport\<close>

lemma prepare_resource_request_eq:
  "prepare_resource_request rf req = (rr, body, ct, method, req') \<Longrightarrow>
     body = req_postdata req \<and> method = method_after_config req \<and>
     ct = content_type_of req \<and>
     rr_method rr = method_after_config req \<and> rr_request_body rr = None \<and>
     req_method req' = method_after_config req \<and> req_flags req' = req_flags req \<and>
     req_postdata req' = req_postdata req \<and> req_headers req' = req_headers req \<and>
     req_url req' = req_url req"
  by (auto simp: prepare_resource_request_def Let_def Request_Get_def method_after_config_def
      content_type_of_def Request_SetReadOnly_def Request_SetMethod_def split: if_splits)

lemma attach_request_body_frame:
  "attach_request_body P fl body ct l sz = (l', sz') \<Longrightarrow>
     ld_resource_request l' = ld_resource_request l \<and> ld_request_id l' = ld_request_id l \<and>
     ld_allow_http_error_results l' = ld_allow_http_error_results l \<and>
     ld_retry_options l' = ld_retry_options l \<and> ld_on_redirect l' = ld_on_redirect l \<and>
     ld_on_upload_progress l' = ld_on_upload_progress l \<and>
     ld_on_response_started l' = ld_on_response_started l \<and>
     ld_on_download_progress l' = ld_on_download_progress l \<and>
     ld_download l' = ld_download l"
  by (auto simp: attach_request_body_def Let_def split: option.splits list.splits if_splits)

lemma start_loader_fields:
  "ld_resource_request (start_loader fl method l) = ld_resource_request l"
  "ld_upload (start_loader fl method l) = ld_upload l"
  "ld_request_id (start_loader fl method l) = ld_request_id l"
  "ld_allow_http_error_results (start_loader fl method l) = True"
  "ld_on_redirect (start_loader fl method l) =
     (if flag_set fl UR_FLAG_STOP_ON_REDIRECT then True else ld_on_redirect l)"
  "ld_on_upload_progress (start_loader fl method l) =
     (if flag_set fl UR_FLAG_REPORT_UPLOAD_PROGRESS then True else ld_on_upload_progress l)"
  "ld_download (start_loader fl method l) =
     (if flag_set fl UR_FLAG_NO_DOWNLOAD_DATA \<or> method = ''HEAD'' then HeadersOnly else AsStream)"
  "ld_on_response_started (start_loader fl method l) =
     (if flag_set fl UR_FLAG_NO_DOWNLOAD_DATA \<or> method = ''HEAD''
        then ld_on_response_started l else True)"
  "ld_on_download_progress (start_loader fl method l) =
     (if flag_set fl UR_FLAG_NO_DOWNLOAD_DATA \<or> method = ''HEAD''
        then ld_on_download_progress l else True)"
  by (simp_all add: start_loader_def Let_def)

lemma method_after_config_not_GET_HEAD:
  "req_postdata req = None \<or>
     (method_after_config req \<noteq> ''GET'' \<and> method_after_config req \<noteq> ''HEAD'')"
  by (simp add: method_after_config_def)

lemma Add_Inr_iff:
  "RequestManager_Add i r c m = Inr m' \<longleftrightarrow>
     sint i \<le> sint kInitialRequestID \<and> m i = None \<and> m' = m(i \<mapsto> (r, c))"
  by (cases "m i") (auto simp: RequestManager_Add_def)

lemma Continue_Inr_D:
  assumes "url_request s \<noteq> None"
    and "ContinueOnOriginatingThread P rf i (Some g) s = Inr s'"
  shows "status s = UR_IO_PENDING \<and> sint i \<le> sint kInitialRequestID \<and> g_manager s i = None"
proof -
  from assms(1) obtain h where h: "url_request s = Some h" by auto
  obtain rr body ct meth req' where
    prep: "prepare_resource_request rf (request s) = (rr, body, ct, meth, req')"
    by (metis prod_cases5)
  have "status s = UR_IO_PENDING \<and>
        (\<exists>m. RequestManager_Add i (url_request s) (client s) (g_manager s) = Inr m)"
    using assms(2) h prep
    by (cases "status s = UR_IO_PENDING")
       (auto simp: ContinueOnOriginatingThread_def thenR_Inr_iff Let_def)
  then show ?thesis by (auto simp: Add_Inr_iff)
qed

lemma Continue_configures:
  assumes "url_request s \<noteq> None" and "status s = UR_IO_PENDING"
    and "sint i \<le> sint kInitialRequestID" and "g_manager s i = None"
  shows "\<exists>s' l l1 sz. ContinueOnOriginatingThread P rf i (Some g) s = Inr s' \<and>
           loader s' = Some l \<and> config_ok (request s') l \<and> registered s' \<and>
           request_id s' = i \<and> url_request s' = url_request s \<and> status s' = status s \<and>
           client s' = client s \<and> client_calls s' = client_calls s \<and>
           finalizations s' = finalizations s \<and> response s' = response s \<and>
           response_was_cached s' = response_was_cached s \<and>
           got_upload_progress_complete s' = got_upload_progress_complete s \<and>
           download_data_size s' = download_data_size s \<and>
           req_method (request s') = method_after_config (request s) \<and>
           req_flags (request s') = req_flags (request s) \<and>
           req_postdata (request s') = req_postdata (request s) \<and>
           req_headers (request s') = req_headers (request s) \<and>
           req_url (request s') = req_url (request s) \<and>
           rr_method (ld_resource_request l) = method_after_config (request s) \<and>
           rr_request_body (ld_resource_request l) = None \<and>
           attach_request_body P (req_flags (request s)) (req_postdata (request s))
             (content_type_of (request s))
             ((SimpleURLLoader_Create (ld_resource_request l))\<lparr>ld_request_id := Some i\<rparr>)
             (upload_data_size s) = (l1, sz) \<and>
           ld_upload l = ld_upload l1 \<and> upload_data_size s' = sz \<and>
           g_manager s' = (g_manager s)(i \<mapsto> (url_request s, client s))"
proof -
  obtain rr body ct meth req' where
    prep: "prepare_resource_request rf (request s) = (rr, body, ct, meth, req')"
    by (metis prod_cases5)
  note p = prepare_resource_request_eq [OF prep]
  obtain l1 sz where
    att: "attach_request_body P (req_flags (request s)) body ct
            ((SimpleURLLoader_Create rr)\<lparr>ld_request_id := Some i\<rparr>) (upload_data_size s) = (l1, sz)"
    by (metis surj_pair)
  note a = attach_request_body_frame [OF att]
  from assms(1) obtain h where h: "url_request s = Some h" by auto
  have add: "RequestManager_Add i (url_request s) (client s) (g_manager s) =
               Inr ((g_manager s)(i \<mapsto> (url_request s, client s)))"
    using assms(3,4) by (simp add: RequestManager_Add_def)
  define s' where "s' = s\<lparr>loader_factory_getter := Some g, request := req',
                   loader := Some (start_loader (req_flags (request s)) meth l1),
                   request_id := i,
                   g_manager := (g_manager s)(i \<mapsto> (url_request s, client s)),
                   upload_data_size := sz\<rparr>"
  have run: "ContinueOnOriginatingThread P rf i (Some g) s = Inr s'"
    using assms(2) h prep att add
    by (simp add: ContinueOnOriginatingThread_def thenR_simps s'_def)
  have cfg: "config_ok req' (start_loader (req_flags (request s)) meth l1)"
    using p a method_after_config_not_GET_HEAD [of "request s"]
    by (auto simp: config_ok_def headers_only_request_def start_loader_fields
        SimpleURLLoader_Create_def)
  show ?thesis
    apply (rule exI [of _ s'])
    apply (rule exI [of _ "start_loader (req_flags (request s)) meth l1"])
    apply (rule exI [of _ l1])
    apply (rule exI [of _ sz])
    using p a cfg assms(3) att run
    apply (simp add: s'_def start_loader_fields registered_def SimpleURLLoader_Create_def)
    done
qed

lemma attach_bytes:
  "el_type e = kBytes \<Longrightarrow>
   attach_request_body P fl (Some [e]) ct l sz =
     (l\<lparr>ld_upload := Some (StringUpload
          (take (unat (el_length e - el_offset e)) (drop (unat (el_offset e)) (el_bytes e)))
          (if ct = [] then kContentTypeApplicationFormURLEncoded else ct))\<rparr>,
      if flag_set fl UR_FLAG_REPORT_UPLOAD_PROGRESS then el_length e - el_offset e else sz)"
  by (simp add: attach_request_body_def)

lemma attach_dropped:
  "length els \<noteq> 1 \<or> (\<exists>e. els = [e] \<and> el_type e \<noteq> kFile \<and> el_type e \<noteq> kBytes) \<Longrightarrow>
   attach_request_body P fl (Some els) ct l sz = (l, sz)"
  by (auto simp: attach_request_body_def split: list.splits)

lemma attach_none: "attach_request_body P fl None ct l sz = (l, sz)"
  by (simp add: attach_request_body_def)

text \<open>
  C5. A live, pending request whose descriptor has method GET and a body of a single
  bytes element is configured (with an identifier the manager accepts) so that the
  method is POST on the descriptor and on the transport request, and the body is
  attached as a string upload; its content type is the Content-Type header of the
  request, and \<open>application/x-www-form-urlencoded\<close> when the request has no such header
  (or an empty one).
\<close>

theorem single_bytes_body_GET_becomes_POST:
  assumes "url_request s \<noteq> None" and "status s = UR_IO_PENDING"
    and "sint i \<le> - 2" and "g_manager s i = None"
    and "req_method (request s) = ''GET''"
    and "req_postdata (request s) = Some [e]" and "el_type e = kBytes"
  shows "\<exists>s' l. ContinueOnOriginatingThread P rf i (Some g) s = Inr s' \<and>
           loader s' = Some l \<and>
           req_method (request s') = ''POST'' \<and>
           rr_method (ld_resource_request l) = ''POST'' \<and>
           ld_upload l = Some (StringUpload
             (take (unat (el_length e - el_offset e)) (drop (unat (el_offset e)) (el_bytes e)))
             (case GetHeader (req_headers (request s)) ''Content-Type'' of
                None \<Rightarrow> ''application/x-www-form-urlencoded''
              | Some v \<Rightarrow> if v = [] then ''application/x-www-form-urlencoded'' else v))"
proof -
  have i: "sint i \<le> sint kInitialRequestID"
    using assms(3) by (simp add: kInitialRequestID_def)
  from Continue_configures [OF assms(1,2) i assms(4), of P rf g]
  obtain s' l l1 sz where run: "ContinueOnOriginatingThread P rf i (Some g) s = Inr s'"
    and l: "loader s' = Some l"
    and m: "req_method (request s') = method_after_config (request s)"
      "rr_method (ld_resource_request l) = method_after_config (request s)"
    and att: "attach_request_body P (req_flags (request s)) (req_postdata (request s))
             (content_type_of (request s))
             ((SimpleURLLoader_Create (ld_resource_request l))\<lparr>ld_request_id := Some i\<rparr>)
             (upload_data_size s) = (l1, sz)"
    and up: "ld_upload l = ld_upload l1"
    by blast
  have post: "method_after_config (request s) = ''POST''"
    using assms(5,6) by (simp add: method_after_config_def)
  have "ld_upload l1 = Some (StringUpload
             (take (unat (el_length e - el_offset e)) (drop (unat (el_offset e)) (el_bytes e)))
             (case GetHeader (req_headers (request s)) ''Content-Type'' of
                None \<Rightarrow> ''application/x-www-form-urlencoded''
              | Some v \<Rightarrow> if v = [] then ''application/x-www-form-urlencoded'' else v))"
    using att assms(6,7)
    by (auto simp: attach_bytes content_type_of_def kContentType_def
        kContentTypeApplicationFormURLEncoded_def split: option.splits)
  with run l m up post show ?thesis by simp
qed

theorem single_bytes_body_GET_becomes_POST_witness:
  "\<exists>s' l. ContinueOnOriginatingThread w_platform (- 2) (- 3) (Some (Getter None))
            (w_context (w_request ''GET'' (Some [w_bytes_element]) 0)) = Inr s' \<and>
          loader s' = Some l \<and> req_method (request s') = ''POST'' \<and>
          rr_method (ld_resource_request l) = ''POST'' \<and>
          ld_upload l = Some (StringUpload [1, 2, 3] ''application/x-www-form-urlencoded'')"
  using single_bytes_body_GET_becomes_POST
    [of "w_context (w_request ''GET'' (Some [w_bytes_element]) 0)" "- 3" w_bytes_element
        w_platform "- 2" "Getter None"]
  by (simp add: w_context_def w_request_def w_bytes_element_def Context_new_def
      Request_SetReadOnly_def)

text \<open>
  C9. A live, pending request whose descriptor has a body and the method GET or HEAD
  is configured so that the method is POST on the descriptor and on the transport
  request, whatever the shape of the body: when the body has no or several elements,
  or one element that is neither a file nor bytes, nothing is attached and the
  request goes out as a POST without a body.
\<close>

theorem body_on_GET_or_HEAD_forces_POST:
  assumes "url_request s \<noteq> None" and "status s = UR_IO_PENDING"
    and "sint i \<le> - 2" and "g_manager s i = None"
    and "req_method (request s) = ''GET'' \<or> req_method (request s) = ''HEAD''"
    and "req_postdata (request s) = Some els"
  shows "\<exists>s' l. ContinueOnOriginatingThread P rf i (Some g) s = Inr s' \<and>
           loader s' = Some l \<and>
           req_method (request s') = ''POST'' \<and>
           rr_method (ld_resource_request l) = ''POST'' \<and>
           rr_request_body (ld_resource_request l) = None \<and>
           (length els \<noteq> 1 \<or> (\<exists>e. els = [e] \<and> el_type e \<noteq> kFile \<and> el_type e \<noteq> kBytes)
              \<longrightarrow> ld_upload l = None \<and> upload_data_size s' = upload_data_size s)"
proof -
  have i: "sint i \<le> sint kInitialRequestID"
    using assms(3) by (simp add: kInitialRequestID_def)
  from Continue_configures [OF assms(1,2) i assms(4), of P rf g]
  obtain s' l l1 sz where run: "ContinueOnOriginatingThread P rf i (Some g) s = Inr s'"
    and l: "loader s' = Some l"
    and m: "req_method (request s') = method_after_config (request s)"
      "rr_method (ld_resource_request l) = method_after_config (request s)"
      "rr_request_body (ld_resource_request l) = None"
    and att: "attach_request_body P (req_flags (request s)) (req_postdata (request s))
             (content_type_of (request s))
             ((SimpleURLLoader_Create (ld_resource_request l))\<lparr>ld_request_id := Some i\<rparr>)
             (upload_data_size s) = (l1, sz)"
    and up: "ld_upload l = ld_upload l1" "upload_data_size s' = sz"
    by blast
  have post: "method_after_config (request s) = ''POST''"
    using assms(5,6) by (auto simp: method_after_config_def)
  have "ld_upload l1 = None \<and> sz = upload_data_size s"
    if "length els \<noteq> 1 \<or> (\<exists>e. els = [e] \<and> el_type e \<noteq> kFile \<and> el_type e \<noteq> kBytes)"
    using att attach_dropped [OF that] assms(6)
    by (auto simp: SimpleURLLoader_Create_def)
  with run l m up post show ?thesis by auto
qed

theorem body_on_GET_or_HEAD_forces_POST_witness:
  "\<exists>s' l. ContinueOnOriginatingThread w_platform (- 2) (- 3) (Some (Getter None))
            (w_context (w_request ''HEAD'' (Some [w_pipe_element]) 0)) = Inr s' \<and>
          loader s' = Some l \<and> req_method (request s') = ''POST'' \<and>
          rr_method (ld_resource_request l) = ''POST'' \<and>
          rr_request_body (ld_resource_request l) = None \<and>
          ld_upload l = None \<and> upload_data_size s' = 0"
  using body_on_GET_or_HEAD_forces_POST
    [of "w_context (w_request ''HEAD'' (Some [w_pipe_element]) 0)" "- 3" "[w_pipe_element]"
        w_platform "- 2" "Getter None"]
  by (simp add: w_context_def w_request_def w_pipe_element_def Context_new_def
      Request_SetReadOnly_def)

section \<open>Callbacks of the transport\<close>

lemma OnDownloadProgress_eq:
  assumes "status s = UR_IO_PENDING" and "client s \<noteq> None"
  shows "OnDownloadProgress c s =
           Inr (if resp_status (response s) = 0 then s
                else s\<lparr>client_calls := client_calls s @ upload_note s @
                         [Client_OnDownloadProgress (url_request s) c (download_data_size s)],
                       got_upload_progress_complete :=
                         (got_upload_progress_complete s \<or> upload_note s \<noteq> [])\<rparr>)"
  using assms
  by (auto simp: OnDownloadProgress_def Notify_eq call_client_ok thenR_simps upload_note_def)

lemma OnUploadProgress_eq:
  assumes "status s = UR_IO_PENDING" and "client s \<noteq> None"
  shows "OnUploadProgress p t s =
           Inr (s\<lparr>upload_data_size := t,
                  got_upload_progress_complete :=
                    (if p = t then True else got_upload_progress_complete s),
                  client_calls := client_calls s @
                    [Client_OnUploadProgress (url_request s) p t]\<rparr>)"
  using assms by (simp add: OnUploadProgress_def call_client_ok)

lemma OnDataReceived_eq:
  assumes "status s = UR_IO_PENDING" and "client s \<noteq> None"
  shows "OnDataReceived b s =
           Inr (s\<lparr>client_calls := client_calls s @ [Client_OnDownloadData (url_request s) b]\<rparr>)"
  using assms by (simp add: OnDataReceived_def call_client_ok)

lemma OnRetry_eq: "status s = UR_IO_PENDING \<Longrightarrow> OnRetry s = Inr s"
  by (simp add: OnRetry_def)

lemma OnResponseStarted_eq:
  assumes "status s = UR_IO_PENDING" and "rh_headers rh = Some hs"
  shows "OnResponseStarted u rh s =
           Inr (s\<lparr>response := (response s)\<lparr>resp_url := u, resp_headers := hdr_lines hs,
                                resp_status := hdr_response_code hs, resp_read_only := True\<rparr>,
                  download_data_size := rh_content_length rh\<rparr>)"
  using assms
  by (simp add: OnResponseStarted_def Response_SetReadOnly_def Response_SetURL_def
      Response_SetResponseHeaders_def)

lemma OnRedirect_live:
  assumes "url_request s \<noteq> None" and "status s = UR_IO_PENDING" and "client s \<noteq> None"
    and "removable s" and "rh_headers rh = Some hs"
  shows "\<exists>s'. OnRedirect u rh s = Inr s' \<and> url_request s' = None \<and> loader s' = None \<and>
           status s' = UR_CANCELED \<and>
           client_calls s' = client_calls s @ [Client_OnRequestComplete (url_request s)] \<and>
           finalizations s' = finalizations s \<and>
           response s' = (response s)\<lparr>resp_url := u, resp_headers := hdr_lines hs,
                            resp_status := hdr_response_code hs,
                            resp_error := ERR_ABORTED, resp_read_only := True\<rparr> \<and>
           response_was_cached s' = response_was_cached s \<and> request s' = request s \<and>
           download_data_size s' = download_data_size s \<and>
           g_manager s' = (if request_id s = 0 then g_manager s
                           else (g_manager s)(request_id s := None))"
proof -
  define sr where "sr = s\<lparr>response :=
                      Response_SetReadOnly True
                        (Response_SetResponseHeaders hs
                          (Response_SetURL u
                            (Response_SetReadOnly False (response s))))\<rparr>"
  have pre: "url_request sr \<noteq> None" "status sr = UR_IO_PENDING" "client sr \<noteq> None"
    "removable sr"
    using assms by (simp_all add: sr_def removable_def registered_def)
  have run: "OnRedirect u rh s = Cancel sr"
    using assms(2,5) by (simp add: OnRedirect_def sr_def)
  from Cancel_live [OF pre] show ?thesis
    unfolding run
    by (auto simp: sr_def Response_SetReadOnly_def Response_SetURL_def
        Response_SetResponseHeaders_def)
qed

lemma OnHeadersOnly_live:
  assumes "url_request s \<noteq> None" and "status s = UR_IO_PENDING" and "client s \<noteq> None"
    and "removable s" and "loader s = Some l"
  shows "\<exists>s'. OnHeadersOnly (Some hs) s = Inr s' \<and> url_request s' = None \<and>
           loader s' = None \<and> status s' = UR_SUCCESS \<and>
           finalizations s' = Suc (finalizations s) \<and>
           client_calls s' = client_calls s @ upload_note s @
             (if req_method (request s) \<noteq> ''HEAD'' \<and> hdr_response_code hs \<noteq> 0
                then [Client_OnDownloadProgress (url_request s) 0 (hdr_content_length hs)]
              else []) @
             [Client_OnRequestComplete (url_request s)] \<and>
           response s' = (response s)\<lparr>resp_headers := hdr_lines hs,
                            resp_status := hdr_response_code hs,
                            resp_url := ld_final_url l, resp_error := ld_net_error l,
                            resp_read_only := True\<rparr> \<and>
           response_was_cached s' = ld_loaded_from_cache l \<and> request s' = request s \<and>
           download_data_size s' =
             (if req_method (request s) \<noteq> ''HEAD'' then hdr_content_length hs
              else download_data_size s) \<and>
           g_manager s' = (if request_id s = 0 then g_manager s
                           else (g_manager s)(request_id s := None))"
proof -
  define s1 where "s1 = s\<lparr>response :=
                       Response_SetReadOnly True
                         (Response_SetResponseHeaders hs
                           (Response_SetReadOnly False (response s)))\<rparr>"
  define s1d where "s1d = s1\<lparr>download_data_size := hdr_content_length hs\<rparr>"
  have r1: "response s1 = (response s)\<lparr>resp_headers := hdr_lines hs,
              resp_status := hdr_response_code hs, resp_read_only := True\<rparr>"
    by (simp add: s1_def Response_SetReadOnly_def Response_SetResponseHeaders_def)
  define s2 where "s2 = (if req_method (request s) \<noteq> ''HEAD''
       then (if hdr_response_code hs = 0 then s1d
             else s1d\<lparr>client_calls := client_calls s1d @ upload_note s1d @
                         [Client_OnDownloadProgress (url_request s1d) 0 (download_data_size s1d)],
                       got_upload_progress_complete :=
                         (got_upload_progress_complete s1d \<or> upload_note s1d \<noteq> [])\<rparr>)
       else s1)"
  have dp: "(if req_method (request s1) \<noteq> ''HEAD''
               then OnDownloadProgress 0 (s1\<lparr>download_data_size := hdr_content_length hs\<rparr>)
             else Inr s1) = Inr s2"
  proof -
    have pre1: "status s1d = UR_IO_PENDING" "client s1d \<noteq> None"
      "resp_status (response s1d) = hdr_response_code hs" "request s1 = request s"
      using assms(2,3) r1 by (simp_all add: s1d_def) (simp_all add: s1_def)
    from OnDownloadProgress_eq [OF pre1(1,2), of 0] pre1(3)
    have "OnDownloadProgress 0 s1d = Inr (if hdr_response_code hs = 0 then s1d
             else s1d\<lparr>client_calls := client_calls s1d @ upload_note s1d @
                         [Client_OnDownloadProgress (url_request s1d) 0 (download_data_size s1d)],
                       got_upload_progress_complete :=
                         (got_upload_progress_complete s1d \<or> upload_note s1d \<noteq> [])\<rparr>)"
      by simp
    then show ?thesis
      unfolding s2_def pre1(4) s1d_def [symmetric] by simp
  qed
  define s3 where "s3 = s2\<lparr>cleanup_immediately := True\<rparr>"
  have un: "upload_note s1d = upload_note s" "upload_note s1 = upload_note s"
    by (simp_all add: upload_note_def s1d_def s1_def)
  have pre: "url_request s3 \<noteq> None" "client s3 \<noteq> None" "removable s3"
    "status s3 = UR_IO_PENDING \<longrightarrow> loader s3 \<noteq> None"
    using assms
    by (simp_all add: s3_def s2_def s1d_def s1_def removable_def registered_def)
  have "OnHeadersOnly (Some hs) s =
          thenR (if req_method (request s1) \<noteq> ''HEAD''
                   then OnDownloadProgress 0 (s1\<lparr>download_data_size := hdr_content_length hs\<rparr>)
                 else Inr s1)
            (\<lambda>s2. OnComplete True (s2\<lparr>cleanup_immediately := True\<rparr>))"
    using assms(2) unfolding OnHeadersOnly_def s1_def by (simp add: Let_def)
  then have run: "OnHeadersOnly (Some hs) s = OnComplete True s3"
    by (simp only: dp thenR_simps s3_def)
  have st3: "status s3 = UR_IO_PENDING" "loader s3 = Some l" "request s3 = request s"
    "request_id s3 = request_id s" "g_manager s3 = g_manager s" "url_request s3 = url_request s"
    "finalizations s3 = finalizations s"
    using assms(2,5) by (simp_all add: s3_def s2_def s1d_def s1_def)
  have calls3: "client_calls s3 @ upload_note s3 =
      client_calls s @ upload_note s @
             (if req_method (request s) \<noteq> ''HEAD'' \<and> hdr_response_code hs \<noteq> 0
                then [Client_OnDownloadProgress (url_request s) 0 (hdr_content_length hs)]
              else [])"
    using un
    by (auto simp: s3_def s2_def upload_note_def s1d_def s1_def)
  have resp3: "response s3 = (response s)\<lparr>resp_headers := hdr_lines hs,
              resp_status := hdr_response_code hs, resp_read_only := True\<rparr>"
    using r1 by (simp add: s3_def s2_def s1d_def)
  have dl3: "download_data_size s3 = (if req_method (request s) \<noteq> ''HEAD''
      then hdr_content_length hs else download_data_size s)"
    by (simp add: s3_def s2_def s1d_def s1_def)
  from OnComplete_live [OF pre, of True] obtain s' where
    "OnComplete True s3 = Inr s'" and f: "url_request s' = None" "loader s' = None"
    "client_calls s' = client_calls s3 @ upload_note s3 @ [Client_OnRequestComplete (url_request s3)]"
    "request s' = request s3" "download_data_size s' = download_data_size s3"
    "g_manager s' = (if request_id s3 = 0 then g_manager s3
                           else (g_manager s3)(request_id s3 := None))"
    "status s' = UR_SUCCESS" "finalizations s' = Suc (finalizations s3)"
    "response s' = (response s3)\<lparr>resp_url := ld_final_url l,
                                       resp_error := ld_net_error l, resp_read_only := True\<rparr>"
    "response_was_cached s' = ld_loaded_from_cache l"
    using st3 by auto
  then show ?thesis
    unfolding run using st3 calls3 resp3 dl3
    by (intro exI [of _ s']) simp
qed

section \<open>The lifecycle invariant is preserved\<close>

lemma upload_note_filters:
  "filter is_completion (upload_note s) = []"
  "filter is_download_data (upload_note s) = []"
  "filter is_download_progress (upload_note s) = []"
  "filter is_upload_progress (upload_note s) = upload_note s"
  by (simp_all add: upload_note_def)

lemma lifecycle_inv_cong:
  assumes "url_request s' = url_request s" and "loader s' = loader s"
    and "status s' = status s" and "client_calls s' = client_calls s"
    and "finalizations s' = finalizations s" and "client s' = client s"
    and "request_id s' = request_id s" and "g_manager s' = g_manager s"
    and "request s' = request s"
  shows "lifecycle_inv s' = lifecycle_inv s"
  using assms
  by (simp add: lifecycle_inv_def torn_down_def completions_def registered_def
      cong: option.case_cong)

lemma lifecycle_inv_live:
  assumes "lifecycle_inv s" and "url_request s \<noteq> None"
  shows "status s = UR_IO_PENDING" and "client s \<noteq> None" and "removable s"
    and "completions s = 0" and "finalizations s = 0"
  using assms
  by (auto simp: lifecycle_inv_def torn_down_def removable_def split: option.splits if_splits)

lemma lifecycle_inv_loader:
  assumes "lifecycle_inv s" and "loader s = Some l"
  shows "url_request s \<noteq> None" and "config_ok (request s) l" and "registered s"
  using assms
  by (auto simp: lifecycle_inv_def torn_down_def split: option.splits if_splits)

lemma lifecycle_inv_headers_only:
  assumes "lifecycle_inv s" and "headers_only_request (request s)"
  shows "filter is_download_data (client_calls s) = []"
    and "url_request s \<noteq> None \<longrightarrow> filter is_download_progress (client_calls s) = []"
  using assms
  by (auto simp: lifecycle_inv_def torn_down_def split: if_splits)

lemma lifecycle_inv_tornI:
  assumes "url_request s' = None" and "loader s' = None"
    and "status s' = UR_CANCELED \<and> finalizations s' = 0 \<or>
         (status s' = UR_SUCCESS \<or> status s' = UR_FAILED) \<and> finalizations s' = 1"
    and "completions s' = 1"
    and "headers_only_request (request s') \<longrightarrow> filter is_download_data (client_calls s') = []"
  shows "lifecycle_inv s'"
  using assms by (auto simp: lifecycle_inv_def torn_down_def)

lemma inv_Cancel:
  assumes "lifecycle_inv s" and "Cancel s = Inr s'"
  shows "lifecycle_inv s'"
proof (cases "url_request s = None")
  case True
  with assms show ?thesis by (simp add: Cancel_torn_down)
next
  case False
  note live = lifecycle_inv_live [OF assms(1) False]
  from Cancel_live [OF False live(1,2,3)] assms(2)
  have f: "url_request s' = None" "loader s' = None" "status s' = UR_CANCELED"
    "client_calls s' = client_calls s @ [Client_OnRequestComplete (url_request s)]"
    "finalizations s' = finalizations s" "request s' = request s"
    by auto
  show ?thesis
  proof (rule lifecycle_inv_tornI)
    show "completions s' = 1" using f live(4) by (simp add: completions_def)
    show "headers_only_request (request s') \<longrightarrow> filter is_download_data (client_calls s') = []"
      using f lifecycle_inv_headers_only(1) [OF assms(1)] by simp
  qed (use f live in simp_all)
qed

lemma method_after_config_HEAD:
  "method_after_config req = ''HEAD'' \<Longrightarrow> req_method req = ''HEAD''"
  by (auto simp: method_after_config_def split: if_splits)

lemma inv_Continue:
  assumes "lifecycle_inv s" and "ContinueOnOriginatingThread P rf i g s = Inr s'"
  shows "lifecycle_inv s'"
proof (cases "url_request s = None")
  case True
  with assms show ?thesis by (simp add: ContinueOnOriginatingThread_def)
next
  case False
  note live = lifecycle_inv_live [OF assms(1) False]
  show ?thesis
  proof (cases g)
    case None
    with assms(2) False have "Cancel s = Inr s'"
      by (simp add: ContinueOnOriginatingThread_def)
    with assms(1) show ?thesis by (rule inv_Cancel)
  next
    case (Some gt)
    from Continue_Inr_D [OF False assms(2) [unfolded Some]]
    have d: "sint i \<le> sint kInitialRequestID" "g_manager s i = None" by simp_all
    from Continue_configures [OF False live(1) d, of P rf gt] assms(2) Some
    obtain l where f: "loader s' = Some l" "config_ok (request s') l" "registered s'"
      "url_request s' = url_request s" "status s' = status s" "client s' = client s"
      "client_calls s' = client_calls s" "finalizations s' = finalizations s"
      "req_method (request s') = method_after_config (request s)"
      "req_flags (request s') = req_flags (request s)"
      by auto
    have ho: "headers_only_request (request s)" if "headers_only_request (request s')"
      using that f(9,10) method_after_config_HEAD [of "request s"]
      by (auto simp: headers_only_request_def)
    show ?thesis
      using f False live lifecycle_inv_headers_only [OF assms(1)] ho
      by (auto simp: lifecycle_inv_def torn_down_def completions_def)
  qed
qed

lemma config_ok_stream:
  assumes "config_ok req l"
    and "ld_download l = AsStream \<or> ld_on_download_progress l \<or> ld_on_response_started l"
  shows "\<not> headers_only_request req"
  using assms by (auto simp: config_ok_def split: if_splits)

lemma lifecycle_inv_liveI:
  assumes "url_request s' \<noteq> None" and "status s' = UR_IO_PENDING" and "client s' \<noteq> None"
    and "completions s' = 0" and "finalizations s' = 0" and "loader s' = Some l"
    and "registered s'" and "config_ok (request s') l"
    and "headers_only_request (request s') \<longrightarrow>
           filter is_download_data (client_calls s') = [] \<and>
           filter is_download_progress (client_calls s') = []"
  shows "lifecycle_inv s'"
  using assms by (auto simp: lifecycle_inv_def torn_down_def)

lemma inv_deliver:
  assumes "lifecycle_inv s" and "loader s = Some l" and "callback_bound l ev"
    and "deliver l ev s = Inr s'"
  shows "lifecycle_inv s'"
proof -
  note ld = lifecycle_inv_loader [OF assms(1,2)]
  note live = lifecycle_inv_live [OF assms(1) ld(1)]
  note ho = lifecycle_inv_headers_only [OF assms(1)]
  show ?thesis
  proof (cases ev)
    case (HeadersOnlyDone h out)
    define s0 where "s0 = s\<lparr>loader := Some (loader_finished out l)\<rparr>"
    from assms(4) HeadersOnlyDone live(1) obtain hs where hs: "h = Some hs"
      by (cases h) (simp_all add: OnHeadersOnly_def)
    have pre: "url_request s0 \<noteq> None" "status s0 = UR_IO_PENDING" "client s0 \<noteq> None"
      "removable s0" "loader s0 = Some (loader_finished out l)"
      using ld(1) live by (simp_all add: s0_def removable_def registered_def)
    from OnHeadersOnly_live [OF pre, of hs] assms(4) HeadersOnlyDone hs
    have f: "url_request s' = None" "loader s' = None" "status s' = UR_SUCCESS"
      "finalizations s' = Suc (finalizations s0)"
      "client_calls s' = client_calls s0 @ upload_note s0 @
             (if req_method (request s0) \<noteq> ''HEAD'' \<and> hdr_response_code hs \<noteq> 0
                then [Client_OnDownloadProgress (url_request s0) 0 (hdr_content_length hs)]
              else []) @
             [Client_OnRequestComplete (url_request s0)]"
      "request s' = request s0"
      by (auto simp: s0_def)
    have s0: "client_calls s0 = client_calls s" "request s0 = request s"
      "finalizations s0 = finalizations s"
      by (simp_all add: s0_def)
    show ?thesis
    proof (rule lifecycle_inv_tornI)
      show "completions s' = 1"
        using f(5) s0 live(4) by (simp add: completions_def upload_note_filters)
      show "headers_only_request (request s') \<longrightarrow>
              filter is_download_data (client_calls s') = []"
        using f(5,6) s0 ho(1) by (simp add: upload_note_filters)
    qed (use f s0 live in simp_all)
  next
    case (Redirect u rh)
    from assms(4) Redirect live(1) obtain hs where hs: "rh_headers rh = Some hs"
      by (cases "rh_headers rh") (simp_all add: OnRedirect_def)
    from OnRedirect_live [OF ld(1) live(1,2,3) hs, of u] assms(4) Redirect
    have f: "url_request s' = None" "loader s' = None" "status s' = UR_CANCELED"
      "client_calls s' = client_calls s @ [Client_OnRequestComplete (url_request s)]"
      "finalizations s' = finalizations s" "request s' = request s"
      by auto
    show ?thesis
    proof (rule lifecycle_inv_tornI)
      show "completions s' = 1" using f live(4) by (simp add: completions_def)
      show "headers_only_request (request s') \<longrightarrow>
              filter is_download_data (client_calls s') = []"
        using f ho(1) by simp
    qed (use f live in simp_all)
  next
    case (ResponseStarted u rh)
    from assms(4) ResponseStarted live(1) obtain hs where hs: "rh_headers rh = Some hs"
      by (cases "rh_headers rh") (simp_all add: OnResponseStarted_def)
    from OnResponseStarted_eq [OF live(1) hs, of u] assms(4) ResponseStarted
    have "s' = s\<lparr>response := (response s)\<lparr>resp_url := u, resp_headers := hdr_lines hs,
                                resp_status := hdr_response_code hs, resp_read_only := True\<rparr>,
                  download_data_size := rh_content_length rh\<rparr>"
      by simp
    then have "lifecycle_inv s' = lifecycle_inv s"
      by (intro lifecycle_inv_cong) simp_all
    with assms(1) show ?thesis by simp
  next
    case (UploadProgress p t)
    from OnUploadProgress_eq [OF live(1,2), of p t] assms(4) UploadProgress
    have s': "s' = s\<lparr>upload_data_size := t,
                  got_upload_progress_complete :=
                    (if p = t then True else got_upload_progress_complete s),
                  client_calls := client_calls s @
                    [Client_OnUploadProgress (url_request s) p t]\<rparr>"
      by simp
    show ?thesis
      using assms(2) ld live ho unfolding s'
      by (intro lifecycle_inv_liveI [of _ l])
         (auto simp: completions_def registered_def)
  next
    case (DownloadProgress c)
    with assms(3) ld(2) have nh: "\<not> headers_only_request (request s)"
      by (auto dest: config_ok_stream)
    from OnDownloadProgress_eq [OF live(1,2), of c] assms(4) DownloadProgress
    have s': "s' = (if resp_status (response s) = 0 then s
                else s\<lparr>client_calls := client_calls s @ upload_note s @
                         [Client_OnDownloadProgress (url_request s) c (download_data_size s)],
                       got_upload_progress_complete :=
                         (got_upload_progress_complete s \<or> upload_note s \<noteq> [])\<rparr>)"
      by simp
    show ?thesis
      using assms(2) ld live nh unfolding s'
      by (intro lifecycle_inv_liveI [of _ l])
         (auto simp: completions_def registered_def upload_note_filters)
  next
    case (DataReceived b)
    with assms(3) ld(2) have nh: "\<not> headers_only_request (request s)"
      by (auto dest: config_ok_stream)
    from OnDataReceived_eq [OF live(1,2), of b] assms(4) DataReceived
    have s': "s' = s\<lparr>client_calls := client_calls s @
                        [Client_OnDownloadData (url_request s) b]\<rparr>"
      by simp
    show ?thesis
      using assms(2) ld live nh unfolding s'
      by (intro lifecycle_inv_liveI [of _ l])
         (auto simp: completions_def registered_def)
  next
    case (Complete b out)
    with assms(3) ld(2) have nh: "\<not> headers_only_request (request s)"
      by (auto dest: config_ok_stream)
    define s0 where "s0 = s\<lparr>loader := Some (loader_finished out l)\<rparr>"
    have pre: "url_request s0 \<noteq> None" "client s0 \<noteq> None" "removable s0"
      "status s0 = UR_IO_PENDING \<longrightarrow> loader s0 \<noteq> None"
      using ld(1) live by (simp_all add: s0_def removable_def registered_def)
    have st0: "status s0 = UR_IO_PENDING" using live(1) by (simp add: s0_def)
    from OnComplete_live [OF pre, of b] assms(4) Complete st0
    have f: "url_request s' = None" "loader s' = None"
      "status s' = (if b then UR_SUCCESS else UR_FAILED)"
      "finalizations s' = Suc (finalizations s0)"
      "client_calls s' = client_calls s0 @ (if b then upload_note s0 else []) @
                               [Client_OnRequestComplete (url_request s0)]"
      "request s' = request s0"
      by (auto simp: s0_def)
    have s0: "client_calls s0 = client_calls s" "request s0 = request s"
      "finalizations s0 = finalizations s"
      by (simp_all add: s0_def)
    show ?thesis
    proof (rule lifecycle_inv_tornI)
      show "completions s' = 1"
        using f(5) s0 live(4) by (simp add: completions_def upload_note_filters)
      show "headers_only_request (request s') \<longrightarrow>
              filter is_download_data (client_calls s') = []"
        using f(6) s0 nh by simp
    qed (use f s0 live in auto)
  next
    case Retry
    with assms(4) live(1) have "s' = s" by (simp add: OnRetry_eq)
    with assms(1) show ?thesis by simp
  qed
qed

lemma inv_step:
  assumes "lifecycle_inv s" and "step P e s = Inr s'"
  shows "lifecycle_inv s'"
proof (cases e)
  case Call_Start
  with assms(2) have "lifecycle_inv s' = lifecycle_inv s"
    by (intro lifecycle_inv_cong) (auto simp: Start_def)
  with assms(1) show ?thesis by simp
next
  case Call_Cancel
  with assms show ?thesis by (auto intro: inv_Cancel)
next
  case Run_UI_task
  with assms(2) have "lifecycle_inv s' = lifecycle_inv s"
    by (intro lifecycle_inv_cong)
       (auto simp: Let_def split: list.splits prod.splits)
  with assms(1) show ?thesis by simp
next
  case Run_origin_task
  show ?thesis
  proof (cases "origin_tasks s")
    case Nil
    with assms Run_origin_task show ?thesis by simp
  next
    case (Cons a ts)
    obtain rf i g where a: "a = (rf, i, g)" by (cases a)
    have "lifecycle_inv (s\<lparr>origin_tasks := ts\<rparr>) = lifecycle_inv s"
      by (intro lifecycle_inv_cong) simp_all
    with assms Run_origin_task Cons a show ?thesis
      by (auto intro: inv_Continue)
  qed
next
  case (Transport ev)
  with assms show ?thesis
    by (auto split: option.splits if_splits intro: inv_deliver)
qed

lemma inv_run:
  "lifecycle_inv s \<Longrightarrow> run P es s = Inr s' \<Longrightarrow> lifecycle_inv s'"
proof (induction es arbitrary: s)
  case Nil
  then show ?case by simp
next
  case (Cons e es)
  from Cons.prems(2) obtain s1 where "step P e s = Inr s1" and "run P es s1 = Inr s'"
    by (auto simp: thenR_Inr_iff)
  with Cons.IH Cons.prems(1) show ?case by (blast intro: inv_step)
qed

lemma inv_Context_new: "lifecycle_inv (Context_new h f r c rc m n)"
  by (simp add: lifecycle_inv_def torn_down_def Context_new_def completions_def)

section \<open>Reachable states\<close>

lemma lifecycle_inv_torn:
  assumes "lifecycle_inv s" and "url_request s = None"
  shows "loader s = None" and "status s \<noteq> UR_IO_PENDING" and "completions s = 1"
    and "finalizations s = (if status s = UR_CANCELED then 0 else 1)"
    and "status s = UR_SUCCESS \<or> status s = UR_FAILED \<or> status s = UR_CANCELED"
  using assms by (auto simp: lifecycle_inv_def torn_down_def)

text \<open>Once torn down, a context ignores every event but for the task queues.\<close>

lemma step_torn_down:
  assumes "url_request s = None" and "loader s = None"
  shows "\<exists>s'. step P e s = Inr s' \<and> url_request s' = None \<and> loader s' = None \<and>
           status s' = status s \<and> response s' = response s \<and>
           response_was_cached s' = response_was_cached s \<and>
           finalizations s' = finalizations s \<and> client_calls s' = client_calls s \<and>
           g_manager s' = g_manager s \<and> request s' = request s"
proof (cases e)
  case Call_Start
  then show ?thesis using assms by (simp add: Start_def)
next
  case Call_Cancel
  then show ?thesis using assms by (simp add: Cancel_torn_down)
next
  case Run_UI_task
  then show ?thesis using assms
    by (cases "ui_tasks s") (auto simp: Let_def split: prod.splits)
next
  case Run_origin_task
  then show ?thesis using assms
    by (cases "origin_tasks s") (auto simp: ContinueOnOriginatingThread_def)
next
  case (Transport ev)
  then show ?thesis using assms by simp
qed

lemma run_torn_down:
  assumes "url_request s = None" and "loader s = None"
  shows "\<exists>s'. run P es s = Inr s' \<and> url_request s' = None \<and> loader s' = None \<and>
           status s' = status s \<and> response s' = response s \<and>
           response_was_cached s' = response_was_cached s \<and>
           finalizations s' = finalizations s \<and> client_calls s' = client_calls s \<and>
           g_manager s' = g_manager s \<and> request s' = request s"
  using assms
proof (induction es arbitrary: s)
  case Nil
  then show ?case by simp
next
  case (Cons e es)
  from step_torn_down [OF Cons.prems, of P e] obtain s1 where
    s1: "step P e s = Inr s1" "url_request s1 = None" "loader s1 = None"
    and f1: "status s1 = status s" "response s1 = response s"
      "response_was_cached s1 = response_was_cached s" "finalizations s1 = finalizations s"
      "client_calls s1 = client_calls s" "g_manager s1 = g_manager s" "request s1 = request s"
    by blast
  from Cons.IH [OF s1(2,3)] s1(1) f1 show ?case
    by (auto simp: thenR_simps)
qed

text \<open>Every event that ends a live request is accepted and tears the request down.\<close>

lemma terminal_event_tears_down:
  assumes "lifecycle_inv s" and "url_request s \<noteq> None" and "terminal_event s e"
  shows "\<exists>s'. step P e s = Inr s' \<and> url_request s' = None \<and> request s' = request s"
proof -
  note live = lifecycle_inv_live [OF assms(1,2)]
  show ?thesis
  proof (cases e)
    case Call_Start
    with assms(3) show ?thesis by simp
  next
    case Call_Cancel
    from Cancel_live [OF assms(2) live(1,2,3)] Call_Cancel show ?thesis by auto
  next
    case Run_UI_task
    with assms(3) show ?thesis by simp
  next
    case Run_origin_task
    with assms(3) obtain rf i ts where ot: "origin_tasks s = (rf, i, None) # ts"
      by (auto split: list.splits)
    define s0 where "s0 = s\<lparr>origin_tasks := ts\<rparr>"
    have pre: "url_request s0 \<noteq> None" "status s0 = UR_IO_PENDING" "client s0 \<noteq> None"
      "removable s0"
      using assms(2) live by (simp_all add: s0_def removable_def registered_def)
    have "step P e s = Cancel s0"
      using Run_origin_task ot pre(1) by (auto simp: ContinueOnOriginatingThread_def s0_def)
    with Cancel_live [OF pre] show ?thesis by (auto simp: s0_def)
  next
    case (Transport ev)
    with assms(3) obtain l where l: "loader s = Some l" "callback_bound l ev"
      "ends_transport ev"
      by (auto split: option.splits)
    have pre: "url_request (s\<lparr>loader := Some l'\<rparr>) \<noteq> None"
      "status (s\<lparr>loader := Some l'\<rparr>) = UR_IO_PENDING"
      "client (s\<lparr>loader := Some l'\<rparr>) \<noteq> None" "removable (s\<lparr>loader := Some l'\<rparr>)"
      "loader (s\<lparr>loader := Some l'\<rparr>) = Some l'"
      "status (s\<lparr>loader := Some l'\<rparr>) = UR_IO_PENDING \<longrightarrow>
         loader (s\<lparr>loader := Some l'\<rparr>) \<noteq> None" for l'
      using assms(2) live by (simp_all add: removable_def registered_def)
    show ?thesis
    proof (cases ev)
      case (HeadersOnlyDone h out)
      with l(3) obtain hs where hs: "h = Some hs" by auto
      note p = pre [of "loader_finished out l"]
      from OnHeadersOnly_live [OF p(1,2,3,4,5), of hs] Transport l HeadersOnlyDone hs
      show ?thesis by auto
    next
      case (Redirect u rh)
      with l(3) obtain hs where "rh_headers rh = Some hs" by auto
      with OnRedirect_live [OF assms(2) live(1,2,3), of rh hs u] Transport l Redirect
      show ?thesis by auto
    next
      case (Complete b out)
      note p = pre [of "loader_finished out l"]
      from OnComplete_live [OF p(1,3,4,6), of b] Transport l Complete
      show ?thesis by auto
    qed (use l(3) in simp_all)
  qed
qed

lemma deliver_not_ending:
  assumes "status s = UR_IO_PENDING" and "client s \<noteq> None"
    and "\<not> ends_transport ev" and "deliver l ev s = Inr s'"
  shows "url_request s' = url_request s \<and> request s' = request s \<and> loader s' = loader s \<and>
         status s' = status s \<and> g_manager s' = g_manager s \<and>
         request_id s' = request_id s \<and> finalizations s' = finalizations s"
proof (cases ev)
  case (HeadersOnlyDone h out)
  with assms show ?thesis by (simp add: OnHeadersOnly_def)
next
  case (Redirect u rh)
  with assms show ?thesis by (simp add: OnRedirect_def)
next
  case (ResponseStarted u rh)
  with assms show ?thesis
    by (cases "rh_headers rh") (auto simp: OnResponseStarted_def)
next
  case (UploadProgress p t)
  with assms show ?thesis by (auto simp: OnUploadProgress_eq)
next
  case (DownloadProgress c)
  with assms show ?thesis by (auto simp: OnDownloadProgress_eq split: if_splits)
next
  case (DataReceived b)
  with assms show ?thesis by (auto simp: OnDataReceived_eq)
next
  case (Complete b out)
  with assms show ?thesis by simp
next
  case Retry
  with assms show ?thesis by (auto simp: OnRetry_eq)
qed

lemma method_after_config_stable:
  assumes "req_postdata q = req_postdata r"
    and "req_method q = req_method r \<or> req_method q = method_after_config r"
  shows "method_after_config q = method_after_config r"
  using assms by (auto simp: method_after_config_def)

lemma descriptor_inv_cong:
  assumes "url_request s' = url_request s \<or> url_request s' = None" and "request s' = request s"
    and "descriptor_inv h r s"
  shows "descriptor_inv h r s'"
  using assms by (auto simp: descriptor_inv_def)

lemma descriptor_step:
  assumes "lifecycle_inv s" and "descriptor_inv h r s" and "step P e s = Inr s'"
  shows "descriptor_inv h r s'"
proof (cases "url_request s = None")
  case True
  from step_torn_down [OF True lifecycle_inv_torn(1) [OF assms(1) True], of P e] assms(3)
  have "url_request s' = None" "request s' = request s" by auto
  with assms(2) show ?thesis by (auto intro: descriptor_inv_cong)
next
  case False
  note live = lifecycle_inv_live [OF assms(1) False]
  show ?thesis
  proof (cases "terminal_event s e")
    case True
    from terminal_event_tears_down [OF assms(1) False True, of P] assms(3)
    have "url_request s' = None" "request s' = request s" by auto
    with assms(2) show ?thesis by (auto intro: descriptor_inv_cong)
  next
    case nt: False
    show ?thesis
    proof (cases e)
      case Call_Start
      with assms(3) have "url_request s' = url_request s" "request s' = request s"
        by (auto simp: Start_def)
      with assms(2) show ?thesis by (auto intro: descriptor_inv_cong)
    next
      case Call_Cancel
      with nt show ?thesis by simp
    next
      case Run_UI_task
      with assms(3) have "url_request s' = url_request s" "request s' = request s"
        by (auto simp: Let_def split: list.splits prod.splits)
      with assms(2) show ?thesis by (auto intro: descriptor_inv_cong)
    next
      case Run_origin_task
      show ?thesis
      proof (cases "origin_tasks s")
        case Nil
        with assms Run_origin_task show ?thesis by simp
      next
        case (Cons a ts)
        with nt Run_origin_task obtain rf i g where a: "a = (rf, i, Some g)"
          by (cases a) auto
        define s0 where "s0 = s\<lparr>origin_tasks := ts\<rparr>"
        have run: "ContinueOnOriginatingThread P rf i (Some g) s0 = Inr s'"
          using assms(3) Run_origin_task Cons a by (simp add: s0_def)
        have live0: "url_request s0 \<noteq> None" "status s0 = UR_IO_PENDING"
          using False live by (simp_all add: s0_def)
        from Continue_Inr_D [OF live0(1) run]
        have d: "sint i \<le> sint kInitialRequestID" "g_manager s0 i = None" by simp_all
        from Continue_configures [OF live0 d, of P rf g] run
        have f: "url_request s' = url_request s0"
          "req_method (request s') = method_after_config (request s0)"
          "req_flags (request s') = req_flags (request s0)"
          "req_postdata (request s') = req_postdata (request s0)"
          "req_headers (request s') = req_headers (request s0)"
          "req_url (request s') = req_url (request s0)"
          by auto
        have "method_after_config (request s) = method_after_config r"
          using assms(2) by (intro method_after_config_stable) (auto simp: descriptor_inv_def)
        with f assms(2) show ?thesis
          by (auto simp: descriptor_inv_def s0_def)
      qed
    next
      case (Transport ev)
      show ?thesis
      proof (cases "loader s")
        case None
        with assms Transport show ?thesis by simp
      next
        case (Some l)
        show ?thesis
        proof (cases "callback_bound l ev")
          case True
          with nt Transport Some have ne: "\<not> ends_transport ev" by simp
          from assms(3) Transport Some True have "deliver l ev s = Inr s'" by simp
          from deliver_not_ending [OF live(1,2) ne this] assms(2)
          show ?thesis by (auto intro: descriptor_inv_cong)
        next
          case False
          with assms Transport Some show ?thesis by simp
        qed
      qed
    qed
  qed
qed

lemma descriptor_run:
  "lifecycle_inv s \<Longrightarrow> descriptor_inv h r s \<Longrightarrow> run P es s = Inr s' \<Longrightarrow>
     descriptor_inv h r s'"
proof (induction es arbitrary: s)
  case Nil
  then show ?case by simp
next
  case (Cons e es)
  from Cons.prems(3) obtain s1 where s1: "step P e s = Inr s1" "run P es s1 = Inr s'"
    by (auto simp: thenR_Inr_iff)
  from Cons.IH [OF inv_step [OF Cons.prems(1) s1(1)]
      descriptor_step [OF Cons.prems(1,2) s1(1)] s1(2)]
  show ?case .
qed

lemma descriptor_Context_new: "descriptor_inv h r (Context_new h f r c rc m n)"
  by (simp add: descriptor_inv_def Context_new_def Request_SetReadOnly_def)

lemma reachable_invs:
  assumes "run P es (Context_new h f r c rc m n) = Inr s"
  shows "lifecycle_inv s" and "descriptor_inv h r s"
  using assms inv_run [OF inv_Context_new] descriptor_run [OF inv_Context_new descriptor_Context_new]
  by blast+

section \<open>Completion and teardown of a request\<close>

text \<open>The definitions unfolded to run the model on a concrete input.\<close>

lemmas eval_defs =
  w_platform_def w_context_def w_request_def w_bytes_element_def w_outcome_def
  w_headers_def w_head_def w_configure_def w_responding_def w_quick_upload_def
  w_empty_element_def
  Context_new_def
  Start_def GetURLLoaderFactoryGetterOnUIThread_def MakeRequestID_def
  ContinueOnOriginatingThread_def prepare_resource_request_def attach_request_body_def
  start_loader_def Request_Get_def Request_SetReadOnly_def Request_SetMethod_def
  SimpleURLLoader_Create_def RequestManager_Add_def RequestManager_Remove_def
  kInitialRequestID_def flag_set_def
  UR_FLAG_ALLOW_STORED_CREDENTIALS_def UR_FLAG_REPORT_UPLOAD_PROGRESS_def
  UR_FLAG_NO_DOWNLOAD_DATA_def UR_FLAG_NO_RETRY_ON_5XX_def UR_FLAG_STOP_ON_REDIRECT_def
  Cancel_def OnComplete_def Cleanup_def NotifyUploadProgressIfNecessary_def call_client_def
  OnHeadersOnly_def OnDownloadProgress_def OnRedirect_def OnResponseStarted_def
  OnUploadProgress_def OnDataReceived_def OnRetry_def loader_finished_def
  Response_new_def Response_SetReadOnly_def Response_SetURL_def Response_SetError_def
  Response_SetResponseHeaders_def thenR_def Let_def MSG_ROUTING_NONE_def
  kContentType_def kContentTypeApplicationFormURLEncoded_def

lemma projr_run:
  "\<not> isl (run P es s) \<Longrightarrow> run P es s = Inr (projr (run P es s))"
  by (cases "run P es s") simp_all

text \<open>
  In every state a request can reach, the client has received the completion callback
  exactly once if the request has been torn down and not at all before; the request is
  torn down exactly when its status has left the pending state. Every event that ends
  a live request (cancellation, failed factory resolution, completion with success or
  failure, headers-only completion with its headers, redirect under stop-on-redirect)
  is accepted and leaves the request torn down with exactly one completion callback.
  On a request that is torn down, \<open>Cancel\<close> returns the state as it is: no callback,
  no removal from the manager.
\<close>

theorem completion_callback_exactly_once:
  assumes "run P es (Context_new h f r c rc m n) = Inr s"
  shows "completions s = (if torn_down s then 1 else 0) \<and>
         (torn_down s \<longleftrightarrow> status s \<noteq> UR_IO_PENDING) \<and>
         (\<not> torn_down s \<and> terminal_event s e \<longrightarrow>
            (\<exists>s'. step P e s = Inr s' \<and> torn_down s' \<and> completions s' = 1)) \<and>
         (torn_down s \<longrightarrow> Cancel s = Inr s)"
proof -
  note inv = reachable_invs(1) [OF assms]
  have a: "completions s = (if torn_down s then 1 else 0)"
    using inv by (auto simp: lifecycle_inv_def split: if_splits)
  have b: "torn_down s \<longleftrightarrow> status s \<noteq> UR_IO_PENDING"
    using inv by (auto simp: lifecycle_inv_def split: if_splits)
  have c: "\<exists>s'. step P e s = Inr s' \<and> torn_down s' \<and> completions s' = 1"
    if "\<not> torn_down s" and "terminal_event s e"
  proof -
    from that(1) have live: "url_request s \<noteq> None" by (simp add: torn_down_def)
    from terminal_event_tears_down [OF inv live that(2), of P]
    obtain s' where s': "step P e s = Inr s'" "url_request s' = None" by blast
    from inv_step [OF inv s'(1)] s'(2) have "completions s' = 1"
      by (rule lifecycle_inv_torn(3))
    with s' show ?thesis by (auto simp: torn_down_def)
  qed
  have d: "Cancel s = Inr s" if "torn_down s"
    using that by (simp add: torn_down_def Cancel_torn_down)
  from a b c d show ?thesis by blast
qed

lemma w_configured_run:
  "run w_platform w_configure (w_context (w_request ''GET'' None 0)) =
     Inr (w_configured (w_request ''GET'' None 0))"
  unfolding w_configured_def by (rule projr_run) (simp add: eval_defs)

lemma w_cancelled_run:
  "run w_platform (w_configure @ [Call_Cancel]) (w_context (w_request ''GET'' None 0)) =
     Inr (w_cancelled (w_request ''GET'' None 0))"
  unfolding w_cancelled_def by (rule projr_run) (simp add: eval_defs)

theorem completion_callback_exactly_once_witness:
  "completions (w_configured (w_request ''GET'' None 0)) = 0 \<and>
   (\<exists>s'. step w_platform (Transport (Complete False w_outcome))
           (w_configured (w_request ''GET'' None 0)) = Inr s' \<and>
         torn_down s' \<and> completions s' = 1) \<and>
   completions (w_cancelled (w_request ''GET'' None 0)) = 1 \<and>
   Cancel (w_cancelled (w_request ''GET'' None 0)) = Inr (w_cancelled (w_request ''GET'' None 0))"
proof -
  have live: "\<not> torn_down (w_configured (w_request ''GET'' None 0))"
    and te: "terminal_event (w_configured (w_request ''GET'' None 0))
              (Transport (Complete False w_outcome))"
    and torn: "torn_down (w_cancelled (w_request ''GET'' None 0))"
    by (simp_all add: w_configured_def w_cancelled_def torn_down_def eval_defs)
  from completion_callback_exactly_once
      [OF w_configured_run [unfolded w_context_def],
        of "Transport (Complete False w_outcome)"]
    completion_callback_exactly_once
      [OF w_cancelled_run [unfolded w_context_def], of Call_Cancel]
    live te torn
  show ?thesis by simp
qed

text \<open>
  C2. The completion callback is to fire exactly once on every terminal path. It does
  on the paths of the theorem above. It does not when a headers-only fetch ends without
  response headers, as it does when the transport fails before a response: the loader
  then enters \<^verbatim>\<open>OnHeadersOnly\<close> with a null pointer, which the function dereferences
  before anything else. The request was configured for a headers-only fetch and has
  completed nothing; the callback faults, and so does the run, without a completion.
\<close>

theorem headers_only_failure_is_not_completed:
  "ld_download (the (loader (w_configured (w_request ''GET'' None 32)))) = HeadersOnly \<and>
   completions (w_configured (w_request ''GET'' None 32)) = 0 \<and>
   step w_platform (Transport (HeadersOnlyDone None w_outcome))
     (w_configured (w_request ''GET'' None 32)) = Inl Null_headers \<and>
   run w_platform (w_configure @ [Transport (HeadersOnlyDone None w_outcome)])
     (w_context (w_request ''GET'' None 32)) = Inl Null_headers"
  by (simp add: w_configured_def completions_def eval_defs)

text \<open>
  C10. A live request that has no loader yet (the configuration step has not run) still
  has the identifier \<open>0\<close> it was constructed with, which lies above the boundary; the
  manager's remove returns at once with the table as it is, and both ways of tearing
  the request down then (a cancel, and the configuration step called without a
  factory getter) return without a fault and leave the table untouched.
\<close>

theorem teardown_before_registration_is_benign:
  assumes "run P es (Context_new h f r c rc m n) = Inr s"
    and "\<not> torn_down s" and "loader s = None"
  shows "request_id s = 0 \<and> sint kInitialRequestID < sint (request_id s) \<and>
         RequestManager_Remove (request_id s) (g_manager s) = Inr (g_manager s) \<and>
         (\<exists>s'. Cancel s = Inr s' \<and> torn_down s' \<and> g_manager s' = g_manager s) \<and>
         (\<exists>s'. ContinueOnOriginatingThread P rf i None s = Inr s' \<and> torn_down s' \<and>
               g_manager s' = g_manager s)"
proof -
  note inv = reachable_invs(1) [OF assms(1)]
  from assms(2) have live: "url_request s \<noteq> None" by (simp add: torn_down_def)
  note l = lifecycle_inv_live [OF inv live]
  have id0: "request_id s = 0"
    using inv assms(2,3) by (simp add: lifecycle_inv_def)
  then have above: "sint kInitialRequestID < sint (request_id s)"
    by (simp add: kInitialRequestID_def)
  then have rm: "RequestManager_Remove (request_id s) (g_manager s) = Inr (g_manager s)"
    by (simp add: RequestManager_Remove_def)
  from Cancel_live [OF live l(1,2,3)] id0
  have c: "\<exists>s'. Cancel s = Inr s' \<and> torn_down s' \<and> g_manager s' = g_manager s"
    by (auto simp: torn_down_def)
  moreover have "ContinueOnOriginatingThread P rf i None s = Cancel s"
    using live by (auto simp: ContinueOnOriginatingThread_def)
  ultimately show ?thesis using id0 above rm by simp
qed

lemma w_resolved_run:
  "run w_platform [Call_Start, Run_UI_task] (w_context (w_request ''GET'' None 0)) =
     Inr (w_resolved (w_request ''GET'' None 0))"
  unfolding w_resolved_def by (rule projr_run) (simp add: eval_defs)

theorem teardown_before_registration_is_benign_witness:
  "request_id (w_resolved (w_request ''GET'' None 0)) = 0 \<and>
   RequestManager_Remove (request_id (w_resolved (w_request ''GET'' None 0)))
     (g_manager (w_resolved (w_request ''GET'' None 0))) =
     Inr (g_manager (w_resolved (w_request ''GET'' None 0))) \<and>
   (\<exists>s'. Cancel (w_resolved (w_request ''GET'' None 0)) = Inr s' \<and> torn_down s' \<and>
         g_manager s' = g_manager (w_resolved (w_request ''GET'' None 0))) \<and>
   (\<exists>s'. ContinueOnOriginatingThread w_platform (- 2) (- 3) None
           (w_resolved (w_request ''GET'' None 0)) = Inr s' \<and> torn_down s' \<and>
         g_manager s' = g_manager (w_resolved (w_request ''GET'' None 0)))"
proof -
  have "\<not> torn_down (w_resolved (w_request ''GET'' None 0))"
    and "loader (w_resolved (w_request ''GET'' None 0)) = None"
    by (simp_all add: w_resolved_def torn_down_def eval_defs)
  from teardown_before_registration_is_benign
      [OF w_resolved_run [unfolded w_context_def] this, where rf = "- 2" and i = "- 3"]
  show ?thesis by blast
qed

text \<open>
  C7. A request created with the stop-on-redirect flag, in any state it can reach with
  its loader running, is pending; a redirect (carrying headers) delivered then is
  accepted, leaves the redirect target and the redirect response's headers in the
  response record, sets the status to canceled and the error to aborted, and completes
  the request once. The redirect is not followed: the loader is destroyed within the
  callback itself (the context holds none afterwards, and nothing was added to the
  loaders and factory getters whose destruction is deferred to a later task), so no
  loader is left that could issue the redirected request.
\<close>

theorem stop_on_redirect_cancels:
  assumes "run P es (Context_new h f r c rc m n) = Inr s"
    and "loader s = Some l"
    and "flag_set (req_flags r) UR_FLAG_STOP_ON_REDIRECT"
    and "rh_headers rh = Some hs"
  shows "status s = UR_IO_PENDING \<and>
         (\<exists>s'. step P (Transport (Redirect u rh)) s = Inr s' \<and>
               resp_url (response s') = u \<and> resp_headers (response s') = hdr_lines hs \<and>
               resp_status (response s') = hdr_response_code hs \<and>
               status s' = UR_CANCELED \<and> resp_error (response s') = ERR_ABORTED \<and>
               loader s' = None \<and> completions s' = 1 \<and>
               delete_soon s' = delete_soon s \<and> release_soon s' = release_soon s)"
proof -
  note inv = reachable_invs [OF assms(1)]
  note ld = lifecycle_inv_loader [OF inv(1) assms(2)]
  note live = lifecycle_inv_live [OF inv(1) ld(1)]
  have bound: "ld_on_redirect l"
    using ld(2) inv(2) assms(3) by (simp add: config_ok_def descriptor_inv_def)
  then have st: "step P (Transport (Redirect u rh)) s = OnRedirect u rh s"
    using assms(2) by simp
  from OnRedirect_live [OF ld(1) live(1,2,3) assms(4), of u]
  obtain s' where s': "OnRedirect u rh s = Inr s'" "url_request s' = None" "loader s' = None"
    "status s' = UR_CANCELED"
    "response s' = (response s)\<lparr>resp_url := u, resp_headers := hdr_lines hs,
                            resp_status := hdr_response_code hs,
                            resp_error := ERR_ABORTED, resp_read_only := True\<rparr>"
    by blast
  from inv_step [OF inv(1) st [unfolded s'(1)]] s'(2) have "completions s' = 1"
    by (rule lifecycle_inv_torn(3))
  with st s' live(1) OnRedirect_immediate [OF s'(1)] show ?thesis by simp
qed

lemma w_configured_stop_run:
  "run w_platform w_configure (w_context (w_request ''GET'' None 128)) =
     Inr (w_configured (w_request ''GET'' None 128))"
  unfolding w_configured_def by (rule projr_run) (simp add: eval_defs)

theorem stop_on_redirect_cancels_witness:
  "status (w_configured (w_request ''GET'' None 128)) = UR_IO_PENDING \<and>
   (\<exists>s'. step w_platform (Transport (Redirect ''https://example.test/other'' (w_head 302)))
           (w_configured (w_request ''GET'' None 128)) = Inr s' \<and>
         resp_url (response s') = ''https://example.test/other'' \<and>
         resp_headers (response s') = [] \<and> resp_status (response s') = 302 \<and>
         status s' = UR_CANCELED \<and> resp_error (response s') = ERR_ABORTED \<and>
         loader s' = None \<and> completions s' = 1 \<and>
         delete_soon s' = [] \<and> release_soon s' = [])"
proof -
  obtain l where l: "loader (w_configured (w_request ''GET'' None 128)) = Some l"
    by (simp add: w_configured_def eval_defs)
  have q: "delete_soon (w_configured (w_request ''GET'' None 128)) = []"
    "release_soon (w_configured (w_request ''GET'' None 128)) = []"
    by (simp_all add: w_configured_def eval_defs)
  have fl: "flag_set (req_flags (w_request ''GET'' None 128)) UR_FLAG_STOP_ON_REDIRECT"
    by (simp add: w_request_def flag_set_def UR_FLAG_STOP_ON_REDIRECT_def)
  have hs: "rh_headers (w_head 302) = Some (w_headers 302)"
    by (simp add: w_head_def)
  from stop_on_redirect_cancels
      [OF w_configured_stop_run [unfolded w_context_def] l fl hs,
        where u = "''https://example.test/other''"]
  show ?thesis by (simp add: w_headers_def q)
qed

section \<open>Start with an invalid URL\<close>

lemma idle_step:
  assumes "\<not> url_is_valid P (req_url (request s))" and "ui_tasks s = []"
    and "origin_tasks s = []" and "loader s = None" and "e \<noteq> Call_Cancel"
  shows "step P e s = Inr s"
  using assms by (cases e) (simp_all add: Start_def)

lemma idle_run:
  assumes "\<not> url_is_valid P (req_url (request s))" and "ui_tasks s = []"
    and "origin_tasks s = []" and "loader s = None" and "Call_Cancel \<notin> set es"
  shows "run P es s = Inr s"
  using assms(5)
proof (induction es)
  case Nil
  then show ?case by simp
next
  case (Cons e es)
  then have "e \<noteq> Call_Cancel" and "Call_Cancel \<notin> set es" by auto
  with idle_step [OF assms(1-4)] Cons.IH show ?case by (simp add: thenR_simps)
qed

text \<open>
  C8. When the descriptor's URL is not valid, \<open>Start\<close> returns false and leaves the
  whole state as it is: the status is pending, no task is posted and the client has
  received no call. The owner then discards the handle, as it is required to, so that
  \<open>Cancel\<close> is not among the later events; whatever else arrives (further calls of
  \<open>Start\<close>, tasks run on either thread, callbacks of a transport) leaves the state as
  it is: the status stays pending and none of the four client callbacks ever fires.
\<close>

theorem invalid_url_start_does_nothing:
  assumes "\<not> url_is_valid P (req_url r)" and "Call_Cancel \<notin> set es"
  shows "Start P (Context_new h f r c rc m n) = (False, Context_new h f r c rc m n) \<and>
         run P es (Context_new h f r c rc m n) = Inr (Context_new h f r c rc m n) \<and>
         status (Context_new h f r c rc m n) = UR_IO_PENDING \<and>
         client_calls (Context_new h f r c rc m n) = [] \<and>
         ui_tasks (Context_new h f r c rc m n) = []"
proof -
  have u: "\<not> url_is_valid P (req_url (request (Context_new h f r c rc m n)))"
    using assms(1) by (simp add: Context_new_def Request_SetReadOnly_def)
  have i: "ui_tasks (Context_new h f r c rc m n) = []"
    "origin_tasks (Context_new h f r c rc m n) = []"
    "loader (Context_new h f r c rc m n) = None"
    "status (Context_new h f r c rc m n) = UR_IO_PENDING"
    "client_calls (Context_new h f r c rc m n) = []"
    by (simp_all add: Context_new_def)
  from idle_run [OF u i(1,2,3) assms(2)] u i show ?thesis
    by (simp add: Start_def)
qed

theorem invalid_url_start_does_nothing_witness:
  "Start w_platform (w_context w_bad_request) = (False, w_context w_bad_request) \<and>
   run w_platform [Call_Start, Run_UI_task, Run_origin_task,
       Transport (Complete True w_outcome), Call_Start] (w_context w_bad_request) =
     Inr (w_context w_bad_request) \<and>
   status (w_context w_bad_request) = UR_IO_PENDING \<and>
   client_calls (w_context w_bad_request) = []"
proof -
  have "\<not> url_is_valid w_platform (req_url w_bad_request)"
    by (simp add: w_platform_def w_bad_request_def)
  moreover have "Call_Cancel \<notin> set [Call_Start, Run_UI_task, Run_origin_task,
       Transport (Complete True w_outcome), Call_Start]"
    by simp
  ultimately show ?thesis
    using invalid_url_start_does_nothing [of w_platform w_bad_request _ 1 None 7 None
        Map.empty kInitialRequestID]
    unfolding w_context_def by blast
qed

section \<open>The status leaves the pending state once\<close>

lemma step_not_terminal:
  assumes "lifecycle_inv s" and "url_request s \<noteq> None" and "\<not> terminal_event s e"
    and "step P e s = Inr s'"
  shows "status s' = status s"
proof -
  note live = lifecycle_inv_live [OF assms(1,2)]
  show ?thesis
  proof (cases e)
    case Call_Start
    with assms(4) show ?thesis by (auto simp: Start_def)
  next
    case Call_Cancel
    with assms(3) show ?thesis by simp
  next
    case Run_UI_task
    with assms(4) show ?thesis by (auto simp: Let_def split: list.splits prod.splits)
  next
    case Run_origin_task
    show ?thesis
    proof (cases "origin_tasks s")
      case Nil
      with assms Run_origin_task show ?thesis by simp
    next
      case (Cons a ts)
      with assms(3) Run_origin_task obtain rf i g where a: "a = (rf, i, Some g)"
        by (cases a) auto
      define s0 where "s0 = s\<lparr>origin_tasks := ts\<rparr>"
      have run: "ContinueOnOriginatingThread P rf i (Some g) s0 = Inr s'"
        using assms(4) Run_origin_task Cons a by (simp add: s0_def)
      have live0: "url_request s0 \<noteq> None" "status s0 = UR_IO_PENDING"
        using assms(2) live by (simp_all add: s0_def)
      from Continue_Inr_D [OF live0(1) run]
      have d: "sint i \<le> sint kInitialRequestID" "g_manager s0 i = None" by simp_all
      from Continue_configures [OF live0 d, of P rf g] run
      have "status s' = status s0" by auto
      then show ?thesis by (simp add: s0_def)
    qed
  next
    case (Transport ev)
    show ?thesis
    proof (cases "loader s")
      case None
      with assms Transport show ?thesis by simp
    next
      case (Some l)
      show ?thesis
      proof (cases "callback_bound l ev")
        case True
        with assms(3) Transport Some have ne: "\<not> ends_transport ev" by simp
        from assms(4) Transport Some True have "deliver l ev s = Inr s'" by simp
        from deliver_not_ending [OF live(1,2) ne this] show ?thesis by simp
      next
        case False
        with assms Transport Some show ?thesis by simp
      qed
    qed
  qed
qed

lemma terminal_step_transition:
  assumes "lifecycle_inv s" and "url_request s \<noteq> None" and "terminal_event s e"
    and "step P e s = Inr s'"
  shows "cancelled_transition s e s' \<or> completed_transition e s'"
proof -
  note live = lifecycle_inv_live [OF assms(1,2)]
  show ?thesis
  proof (cases e)
    case Call_Start
    with assms(3) show ?thesis by simp
  next
    case Call_Cancel
    from Cancel_live [OF assms(2) live(1,2,3)] assms(4) Call_Cancel live(5)
    have "cancelled_transition s e s'"
      by (auto simp: cancelled_transition_def)
    then show ?thesis ..
  next
    case Run_UI_task
    with assms(3) show ?thesis by simp
  next
    case Run_origin_task
    with assms(3) obtain rf i ts where ot: "origin_tasks s = (rf, i, None) # ts"
      by (auto split: list.splits)
    define s0 where "s0 = s\<lparr>origin_tasks := ts\<rparr>"
    have pre: "url_request s0 \<noteq> None" "status s0 = UR_IO_PENDING" "client s0 \<noteq> None"
      "removable s0"
      using assms(2) live by (simp_all add: s0_def removable_def registered_def)
    have "step P e s = Cancel s0"
      using Run_origin_task ot pre(1) by (auto simp: ContinueOnOriginatingThread_def s0_def)
    with Cancel_live [OF pre] assms(4) Run_origin_task live(5)
    have "cancelled_transition s e s'"
      by (auto simp: cancelled_transition_def s0_def)
    then show ?thesis ..
  next
    case (Transport ev)
    with assms(3) obtain l where l: "loader s = Some l" "callback_bound l ev"
      "ends_transport ev"
      by (auto split: option.splits)
    have pre: "url_request (s\<lparr>loader := Some l'\<rparr>) \<noteq> None"
      "status (s\<lparr>loader := Some l'\<rparr>) = UR_IO_PENDING"
      "client (s\<lparr>loader := Some l'\<rparr>) \<noteq> None" "removable (s\<lparr>loader := Some l'\<rparr>)"
      "loader (s\<lparr>loader := Some l'\<rparr>) = Some l'"
      "status (s\<lparr>loader := Some l'\<rparr>) = UR_IO_PENDING \<longrightarrow>
         loader (s\<lparr>loader := Some l'\<rparr>) \<noteq> None" for l'
      using assms(2) live by (simp_all add: removable_def registered_def)
    show ?thesis
    proof (cases ev)
      case (HeadersOnlyDone hh out)
      with l(3) obtain hs where hs: "hh = Some hs" by auto
      note p = pre [of "loader_finished out l"]
      from OnHeadersOnly_live [OF p(1,2,3,4,5), of hs] assms(4) Transport l HeadersOnlyDone
        hs live(5)
      have "completed_transition e s'"
        by (auto simp: completed_transition_def finalized_with_def loader_finished_def)
      then show ?thesis ..
    next
      case (Redirect u rh)
      with l(3) obtain hs where "rh_headers rh = Some hs" by auto
      with OnRedirect_live [OF assms(2) live(1,2,3), of rh hs u] assms(4) Transport l
        Redirect live(5)
      have "cancelled_transition s e s'"
        by (auto simp: cancelled_transition_def)
      then show ?thesis ..
    next
      case (Complete b out)
      note p = pre [of "loader_finished out l"]
      from OnComplete_live [OF p(1,3,4,6), of b] assms(4) Transport l Complete live(1,5)
      have "completed_transition e s'"
        by (auto simp: completed_transition_def finalized_with_def loader_finished_def)
      then show ?thesis ..
    qed (use l(3) in simp_all)
  qed
qed

text \<open>
  C1 (amended). In every state a request can reach, the status is never unknown, and
  the block of \<open>OnComplete\<close> that writes the final URL, the error code and the cached
  flag has run once if the status is success or failed and never otherwise. Once the
  status has left the pending state, every further sequence of events is accepted and
  leaves the status, the response record and the cached flag as they are. A step that
  takes the status out of the pending state is either a cancellation, which sets the
  status to canceled and the error to aborted and leaves the cached flag and (but for a
  redirect target) the URL as they were, or a completion reported by the loader, which
  sets success or failed and writes the loader's final URL, error code and cached flag.
\<close>

theorem status_settles_once:
  assumes "run P es (Context_new h f r c rc m n) = Inr s"
  shows "status s \<noteq> UR_UNKNOWN \<and>
         finalizations s = (if status s = UR_SUCCESS \<or> status s = UR_FAILED then 1 else 0) \<and>
         (status s \<noteq> UR_IO_PENDING \<longrightarrow>
            (\<exists>s'. run P es' s = Inr s' \<and> status s' = status s \<and> response s' = response s \<and>
                  response_was_cached s' = response_was_cached s \<and>
                  finalizations s' = finalizations s)) \<and>
         (status s = UR_IO_PENDING \<and> step P e s = Inr s1 \<and> status s1 \<noteq> UR_IO_PENDING \<longrightarrow>
            cancelled_transition s e s1 \<or> completed_transition e s1)"
proof -
  note inv = reachable_invs(1) [OF assms]
  have a: "status s \<noteq> UR_UNKNOWN"
    using inv by (auto simp: lifecycle_inv_def split: if_splits)
  have b: "finalizations s = (if status s = UR_SUCCESS \<or> status s = UR_FAILED then 1 else 0)"
    using inv by (auto simp: lifecycle_inv_def split: if_splits)
  have c: "\<exists>s'. run P es' s = Inr s' \<and> status s' = status s \<and> response s' = response s \<and>
                  response_was_cached s' = response_was_cached s \<and>
                  finalizations s' = finalizations s"
    if "status s \<noteq> UR_IO_PENDING"
  proof -
    from that inv have t: "url_request s = None"
      by (auto simp: lifecycle_inv_def torn_down_def split: if_splits)
    from run_torn_down [OF t lifecycle_inv_torn(1) [OF inv t], of P es']
    show ?thesis by blast
  qed
  have d: "cancelled_transition s e s1 \<or> completed_transition e s1"
    if "status s = UR_IO_PENDING" and "step P e s = Inr s1" and "status s1 \<noteq> UR_IO_PENDING"
  proof -
    from that(1) inv have live: "url_request s \<noteq> None"
      by (auto simp: lifecycle_inv_def torn_down_def split: if_splits)
    have "terminal_event s e"
      using step_not_terminal [OF inv live _ that(2)] that(1,3) by auto
    from terminal_step_transition [OF inv live this that(2)] show ?thesis .
  qed
  from a b c d show ?thesis by blast
qed

theorem status_settles_once_witness:
  "finalizations (w_cancelled (w_request ''GET'' None 0)) = 0 \<and>
   status (w_cancelled (w_request ''GET'' None 0)) = UR_CANCELED \<and>
   (\<exists>s'. run w_platform [Transport (Complete True w_outcome), Call_Cancel, Call_Start]
           (w_cancelled (w_request ''GET'' None 0)) = Inr s' \<and>
         status s' = UR_CANCELED \<and>
         response s' = response (w_cancelled (w_request ''GET'' None 0)) \<and>
         response_was_cached s' = response_was_cached (w_cancelled (w_request ''GET'' None 0))) \<and>
   (\<exists>s1. step w_platform (Transport (Complete True w_outcome))
           (w_configured (w_request ''GET'' None 0)) = Inr s1 \<and>
         completed_transition (Transport (Complete True w_outcome)) s1)"
proof -
  have c: "status (w_cancelled (w_request ''GET'' None 0)) = UR_CANCELED"
    by (simp add: w_cancelled_def eval_defs)
  obtain s1 where s1: "step w_platform (Transport (Complete True w_outcome))
           (w_configured (w_request ''GET'' None 0)) = Inr s1" "status s1 = UR_SUCCESS"
    and p: "status (w_configured (w_request ''GET'' None 0)) = UR_IO_PENDING"
    by (simp add: w_configured_def eval_defs)
  from status_settles_once
      [OF w_cancelled_run [unfolded w_context_def],
        where es' = "[Transport (Complete True w_outcome), Call_Cancel, Call_Start]"]
    status_settles_once
      [OF w_configured_run [unfolded w_context_def],
        where e = "Transport (Complete True w_outcome)" and ?s1.0 = s1]
    c s1 p
  show ?thesis
    by (auto simp: cancelled_transition_def)
qed

text \<open>
  C1 as stated fails: a cancel takes the status out of the pending state while the
  block that writes the final URL, error code and cached flag never runs; the URL and
  the cached flag stay what they were before the transition.
\<close>

theorem cancel_leaves_pending_without_finalizing:
  "\<not> isl (run w_platform (w_responding @ [Call_Cancel]) (w_context (w_request ''GET'' None 0))) \<and>
   status w_before_cancel = UR_IO_PENDING \<and>
   status w_after_cancel = UR_CANCELED \<and>
   finalizations w_after_cancel = 0 \<and>
   resp_url (response w_after_cancel) = resp_url (response w_before_cancel) \<and>
   response_was_cached w_after_cancel = response_was_cached w_before_cancel"
  by (simp add: w_before_cancel_def w_after_cancel_def eval_defs)

section \<open>Headers-only fetches\<close>

lemma descriptor_inv_live:
  assumes "descriptor_inv h r s" and "url_request s \<noteq> None"
  shows "url_request s = Some h"
  using assms by (auto simp: descriptor_inv_def)

text \<open>
  C6 (amended). A request in any state it can reach with its loader running, whose
  descriptor has the no-download-data flag or the method HEAD, was configured for a
  headers-only fetch and has so far delivered neither data nor download progress.
  When the fetch then completes with its headers, the callback is accepted, the status
  is success, the client has received no download-data call and exactly one completion
  call, which is the last call. If the method is not HEAD, the expected download size
  is the content length of the headers, and, provided the status code of the headers
  is not 0, there is exactly one download-progress call, with current 0 and that
  total; otherwise there is none.
\<close>

theorem headers_only_fetch_callbacks:
  assumes "run P es (Context_new h f r c rc m n) = Inr s"
    and "loader s = Some l" and "headers_only_request (request s)"
  shows "ld_download l = HeadersOnly \<and>
         filter is_download_data (client_calls s) = [] \<and>
         filter is_download_progress (client_calls s) = [] \<and>
         (\<exists>s'. step P (Transport (HeadersOnlyDone (Some hs) out)) s = Inr s' \<and>
               status s' = UR_SUCCESS \<and> completions s' = 1 \<and>
               last (client_calls s') = Client_OnRequestComplete (Some h) \<and>
               filter is_download_data (client_calls s') = [] \<and>
               filter is_download_progress (client_calls s') =
                 (if req_method (request s) \<noteq> ''HEAD'' \<and> hdr_response_code hs \<noteq> 0
                    then [Client_OnDownloadProgress (Some h) 0 (hdr_content_length hs)]
                  else []) \<and>
               (req_method (request s) \<noteq> ''HEAD'' \<longrightarrow>
                  download_data_size s' = hdr_content_length hs))"
proof -
  note inv = reachable_invs [OF assms(1)]
  note ld = lifecycle_inv_loader [OF inv(1) assms(2)]
  note live = lifecycle_inv_live [OF inv(1) ld(1)]
  note ho = lifecycle_inv_headers_only [OF inv(1) assms(3)]
  note h = descriptor_inv_live [OF inv(2) ld(1)]
  have mode: "ld_download l = HeadersOnly"
    using ld(2) assms(3) by (simp add: config_ok_def)
  have dp: "filter is_download_progress (client_calls s) = []"
    using ho(2) ld(1) by simp
  define s0 where "s0 = s\<lparr>loader := Some (loader_finished out l)\<rparr>"
  have st: "step P (Transport (HeadersOnlyDone (Some hs) out)) s = OnHeadersOnly (Some hs) s0"
    using assms(2) mode by (simp add: s0_def)
  have pre: "url_request s0 \<noteq> None" "status s0 = UR_IO_PENDING" "client s0 \<noteq> None"
    "removable s0" "loader s0 = Some (loader_finished out l)"
    using ld(1) live by (simp_all add: s0_def removable_def registered_def)
  from OnHeadersOnly_live [OF pre, of hs]
  obtain s' where s': "OnHeadersOnly (Some hs) s0 = Inr s'" "url_request s' = None"
    "status s' = UR_SUCCESS"
    "client_calls s' = client_calls s0 @ upload_note s0 @
             (if req_method (request s0) \<noteq> ''HEAD'' \<and> hdr_response_code hs \<noteq> 0
                then [Client_OnDownloadProgress (url_request s0) 0 (hdr_content_length hs)]
              else []) @
             [Client_OnRequestComplete (url_request s0)]"
    "download_data_size s' =
             (if req_method (request s0) \<noteq> ''HEAD'' then hdr_content_length hs
              else download_data_size s0)"
    by blast
  have s0f: "client_calls s0 = client_calls s" "request s0 = request s"
    "url_request s0 = Some h"
    using h by (simp_all add: s0_def)
  from inv_step [OF inv(1) st [unfolded s'(1)]] s'(2) have comp: "completions s' = 1"
    by (rule lifecycle_inv_torn(3))
  have "last (client_calls s') = Client_OnRequestComplete (Some h)"
    using s'(4) s0f by simp
  moreover have "filter is_download_data (client_calls s') = []"
    using s'(4) s0f ho(1) by (simp add: upload_note_filters)
  moreover have "filter is_download_progress (client_calls s') =
                 (if req_method (request s) \<noteq> ''HEAD'' \<and> hdr_response_code hs \<noteq> 0
                    then [Client_OnDownloadProgress (Some h) 0 (hdr_content_length hs)]
                  else [])"
    using s'(4) s0f dp by (simp add: upload_note_filters)
  ultimately show ?thesis
    using mode ho(1) dp st s' comp s0f by simp
qed

lemma w_configured_headers_only_run:
  "run w_platform w_configure (w_context (w_request ''GET'' None 32)) =
     Inr (w_configured (w_request ''GET'' None 32))"
  unfolding w_configured_def by (rule projr_run) (simp add: eval_defs)

theorem headers_only_fetch_callbacks_witness:
  "\<exists>s'. step w_platform (Transport (HeadersOnlyDone (Some (w_headers 200)) w_outcome))
           (w_configured (w_request ''GET'' None 32)) = Inr s' \<and>
         status s' = UR_SUCCESS \<and> completions s' = 1 \<and>
         last (client_calls s') = Client_OnRequestComplete (Some 1) \<and>
         filter is_download_data (client_calls s') = [] \<and>
         filter is_download_progress (client_calls s') = [Client_OnDownloadProgress (Some 1) 0 10] \<and>
         download_data_size s' = 10"
proof -
  obtain l where l: "loader (w_configured (w_request ''GET'' None 32)) = Some l"
    by (simp add: w_configured_def eval_defs)
  have ho: "headers_only_request (request (w_configured (w_request ''GET'' None 32)))"
    and m: "req_method (request (w_configured (w_request ''GET'' None 32))) = ''GET''"
    by (simp_all add: w_configured_def headers_only_request_def eval_defs)
  from headers_only_fetch_callbacks
      [OF w_configured_headers_only_run [unfolded w_context_def] l ho,
        where hs = "w_headers 200" and out = w_outcome] m
  show ?thesis by (simp add: w_headers_def)
qed

text \<open>
  C6 as stated fails: a successful headers-only GET whose response headers carry the
  status code 0 completes without any download-progress call.
\<close>

theorem headers_only_status_zero_no_progress:
  "\<not> isl (run w_platform
       (w_configure @ [Transport (HeadersOnlyDone (Some (w_headers 0)) w_outcome)])
       (w_context (w_request ''GET'' None 32))) \<and>
   ld_download (the (loader (w_configured (w_request ''GET'' None 32)))) = HeadersOnly \<and>
   req_method (request (w_headers_done (w_request ''GET'' None 32) 0)) = ''GET'' \<and>
   status (w_headers_done (w_request ''GET'' None 32) 0) = UR_SUCCESS \<and>
   completions (w_headers_done (w_request ''GET'' None 32) 0) = 1 \<and>
   filter is_download_progress (client_calls (w_headers_done (w_request ''GET'' None 32) 0)) = []"
  by (simp add: w_headers_done_def w_configured_def completions_def eval_defs)

section \<open>The final upload notification\<close>

lemma nondata_empty_no_progress:
  "nondata_calls s = [] \<Longrightarrow> filter is_download_progress (client_calls s) = []"
proof -
  assume a: "nondata_calls s = []"
  have "filter is_download_progress (client_calls s) =
          filter is_download_progress (nondata_calls s)"
    unfolding nondata_calls_def filter_filter
    by (rule filter_cong) (auto elim: is_download_progress.elims)
  with a show ?thesis by simp
qed

lemma upload_note_live:
  assumes "upload_data_size s = n" and "0 < sint n" and "url_request s = Some h"
  shows "upload_note s =
           (if got_upload_progress_complete s then []
            else [Client_OnUploadProgress (Some h) n n])"
  using assms by (simp add: upload_note_def)

lemma upload_inv_cong:
  assumes "url_request s' = url_request s" and "loader s' = loader s"
    and "status s' = status s" and "client_calls s' = client_calls s"
    and "upload_data_size s' = upload_data_size s"
    and "got_upload_progress_complete s' = got_upload_progress_complete s"
  shows "upload_inv h n s' = upload_inv h n s"
  using assms
  by (simp add: upload_inv_def torn_down_def nondata_calls_def cong: option.case_cong)

lemma upload_inv_tornI:
  assumes "url_request s' = None"
    and "status s' = UR_SUCCESS \<longrightarrow>
           nondata_calls s' =
               Client_OnUploadProgress (Some h) n n #
                 filter is_download_progress (client_calls s') @
                 [Client_OnRequestComplete (Some h)]"
  shows "upload_inv h n s'"
  using assms by (auto simp: upload_inv_def torn_down_def)

lemma upload_inv_loader:
  assumes "upload_inv h n s" and "url_request s \<noteq> None" and "loader s = Some l"
  shows "upload_data_size s = n"
    and "got_upload_progress_complete s \<Longrightarrow>
           nondata_calls s = Client_OnUploadProgress (Some h) n n #
                            filter is_download_progress (client_calls s)"
    and "\<not> got_upload_progress_complete s \<Longrightarrow> nondata_calls s = []"
  using assms by (auto simp: upload_inv_def torn_down_def split: if_splits)

text \<open>The calls a successful completion adds close the shape.\<close>

lemma upload_shape_closed:
  assumes "upload_inv h n s" and "url_request s = Some h" and "loader s = Some l"
    and "0 < sint n"
    and "client_calls s' = client_calls s @ upload_note s @ dp @ [Client_OnRequestComplete (Some h)]"
    and "filter is_download_progress dp = dp" and "filter is_download_data dp = []"
  shows "nondata_calls s' =
               Client_OnUploadProgress (Some h) n n #
                 filter is_download_progress (client_calls s') @
                 [Client_OnRequestComplete (Some h)]"
proof -
  from assms(2) have live: "url_request s \<noteq> None" by simp
  note u = upload_inv_loader [OF assms(1) live assms(3)]
  note un = upload_note_live [OF u(1) assms(4,2)]
  have nd_dp: "filter (\<lambda>c. \<not> is_download_data c) dp = dp"
    using assms(7) by (simp add: filter_empty_conv)
  show ?thesis
  proof (cases "got_upload_progress_complete s")
    case True
    with u(2) un assms(5,6) nd_dp show ?thesis
      by (simp add: nondata_calls_def)
  next
    case False
    with u(3) un assms(5,6) nd_dp nondata_empty_no_progress [of s] show ?thesis
      by (simp add: nondata_calls_def)
  qed
qed

lemma upload_inv_liveI:
  assumes "url_request s' = Some h'" and "loader s' = Some l" and "upload_data_size s' = n"
    and "if got_upload_progress_complete s'
           then nondata_calls s' =
                  Client_OnUploadProgress (Some h) n n #
                    filter is_download_progress (client_calls s')
         else nondata_calls s' = []"
  shows "upload_inv h n s'"
  using assms by (simp add: upload_inv_def torn_down_def)

lemma upload_step:
  assumes inv: "lifecycle_inv s" and desc: "descriptor_inv h r s" and up: "upload_inv h n s"
    and fl: "flag_set (req_flags r) UR_FLAG_REPORT_UPLOAD_PROGRESS"
    and body: "req_postdata r = Some [e]" "el_type e = kBytes"
    and n: "n = el_length e - el_offset e" "0 < sint n"
    and ev: "\<not> is_upload_event ev"
    and st: "step P ev s = Inr s'"
  shows "upload_inv h n s'"
proof (cases "url_request s = None")
  case True
  from step_torn_down [OF True lifecycle_inv_torn(1) [OF inv True], of P ev] st
  have "url_request s' = None" "status s' = status s" "client_calls s' = client_calls s"
    by auto
  with up True show ?thesis
    by (auto simp: upload_inv_def torn_down_def nondata_calls_def)
next
  case False
  note live = lifecycle_inv_live [OF inv False]
  note h = descriptor_inv_live [OF desc False]
  show ?thesis
  proof (cases ev)
    case Call_Start
    with st have "upload_inv h n s' = upload_inv h n s"
      by (intro upload_inv_cong) (auto simp: Start_def split: if_splits)
    with up show ?thesis by simp
  next
    case Call_Cancel
    from Cancel_live [OF False live(1,2,3)] st Call_Cancel
    have "url_request s' = None" "status s' = UR_CANCELED" by auto
    then show ?thesis by (auto intro: upload_inv_tornI)
  next
    case Run_UI_task
    with st have "upload_inv h n s' = upload_inv h n s"
      by (intro upload_inv_cong) (auto simp: Let_def split: list.splits prod.splits)
    with up show ?thesis by simp
  next
    case Run_origin_task
    show ?thesis
    proof (cases "origin_tasks s")
      case Nil
      with st up Run_origin_task show ?thesis by simp
    next
      case (Cons a ts)
      obtain rf i g where a: "a = (rf, i, g)" by (cases a)
      define s0 where "s0 = s\<lparr>origin_tasks := ts\<rparr>"
      have run: "ContinueOnOriginatingThread P rf i g s0 = Inr s'"
        using st Run_origin_task Cons a by (simp add: s0_def)
      have pre: "url_request s0 \<noteq> None" "status s0 = UR_IO_PENDING" "client s0 \<noteq> None"
        "removable s0"
        using False live by (simp_all add: s0_def removable_def registered_def)
      show ?thesis
      proof (cases g)
        case None
        with run pre(1) have "Cancel s0 = Inr s'"
          by (auto simp: ContinueOnOriginatingThread_def)
        with Cancel_live [OF pre]
        have "url_request s' = None" "status s' = UR_CANCELED" by auto
        then show ?thesis by (auto intro: upload_inv_tornI)
      next
        case (Some gt)
        from Continue_Inr_D [OF pre(1) run [unfolded Some]]
        have d: "sint i \<le> sint kInitialRequestID" "g_manager s0 i = None" by simp_all
        from Continue_configures [OF pre(1,2) d, of P rf gt] run Some
        obtain l l1 sz where f: "loader s' = Some l" "url_request s' = url_request s0"
          "client_calls s' = client_calls s0"
          "got_upload_progress_complete s' = got_upload_progress_complete s0"
          "attach_request_body P (req_flags (request s0)) (req_postdata (request s0))
             (content_type_of (request s0))
             ((SimpleURLLoader_Create (ld_resource_request l))\<lparr>ld_request_id := Some i\<rparr>)
             (upload_data_size s0) = (l1, sz)"
          "upload_data_size s' = sz"
          by auto
        have "req_postdata (request s0) = Some [e]"
          and "flag_set (req_flags (request s0)) UR_FLAG_REPORT_UPLOAD_PROGRESS"
          using desc body fl by (simp_all add: descriptor_inv_def s0_def)
        with f(5) body(2) n(1) have sz: "sz = n"
          by (simp add: attach_bytes)
        have shape: "(if got_upload_progress_complete s
                   then nondata_calls s =
                          Client_OnUploadProgress (Some h) n n #
                            filter is_download_progress (client_calls s)
                 else nondata_calls s = [])"
        proof (cases "loader s")
          case None
          with inv False up show ?thesis
            by (auto simp: lifecycle_inv_def upload_inv_def torn_down_def nondata_calls_def
                split: if_splits)
        next
          case (Some l0)
          from upload_inv_loader [OF up False Some] show ?thesis by auto
        qed
        show ?thesis
          using f sz shape h
          by (intro upload_inv_liveI [of _ h l]) (auto simp: nondata_calls_def s0_def)
      qed
    qed
  next
    case (Transport tev)
    show ?thesis
    proof (cases "loader s")
      case None
      with st up Transport show ?thesis by simp
    next
      case (Some l)
      note u = upload_inv_loader [OF up False Some]
      note un = upload_note_live [OF u(1) n(2) h]
      show ?thesis
      proof (cases "callback_bound l tev")
        case nb: False
        with st up Transport Some show ?thesis by simp
      next
        case True
        with st Transport Some have dl: "deliver l tev s = Inr s'" by simp
        have pre: "url_request (s\<lparr>loader := Some l'\<rparr>) \<noteq> None"
          "status (s\<lparr>loader := Some l'\<rparr>) = UR_IO_PENDING"
          "client (s\<lparr>loader := Some l'\<rparr>) \<noteq> None" "removable (s\<lparr>loader := Some l'\<rparr>)"
          "loader (s\<lparr>loader := Some l'\<rparr>) = Some l'"
          "status (s\<lparr>loader := Some l'\<rparr>) = UR_IO_PENDING \<longrightarrow>
             loader (s\<lparr>loader := Some l'\<rparr>) \<noteq> None" for l'
          using False live by (simp_all add: removable_def registered_def)
        have un0: "upload_note (s\<lparr>loader := Some l'\<rparr>) = upload_note s" for l'
          by (simp add: upload_note_def)
        show ?thesis
        proof (cases tev)
          case (HeadersOnlyDone hh out)
          from dl HeadersOnlyDone live(1) obtain hs where hs: "hh = Some hs"
            by (cases hh) (simp_all add: OnHeadersOnly_def)
          note p = pre [of "loader_finished out l"]
          from OnHeadersOnly_live [OF p(1,2,3,4,5), of hs] dl HeadersOnlyDone hs
          have f: "url_request s' = None"
            "client_calls s' = client_calls s @ upload_note s @
               (if req_method (request s) \<noteq> ''HEAD'' \<and> hdr_response_code hs \<noteq> 0
                  then [Client_OnDownloadProgress (Some h) 0 (hdr_content_length hs)]
                else []) @
               [Client_OnRequestComplete (Some h)]"
            using h by (auto simp: un0)
          from upload_shape_closed [OF up h Some n(2) f(2)] f(1)
          show ?thesis by (auto intro: upload_inv_tornI)
        next
          case (Redirect u rh)
          from dl Redirect live(1) obtain hs where hs: "rh_headers rh = Some hs"
            by (cases "rh_headers rh") (simp_all add: OnRedirect_def)
          from OnRedirect_live [OF False live(1,2,3) hs, of u] dl Redirect
          have "url_request s' = None" "status s' = UR_CANCELED" by auto
          then show ?thesis by (auto intro: upload_inv_tornI)
        next
          case (ResponseStarted u rh)
          from dl ResponseStarted live(1) obtain hs where hs: "rh_headers rh = Some hs"
            by (cases "rh_headers rh") (simp_all add: OnResponseStarted_def)
          from OnResponseStarted_eq [OF live(1) hs, of u] dl ResponseStarted
          have "upload_inv h n s' = upload_inv h n s"
            by (intro upload_inv_cong) auto
          with up show ?thesis by simp
        next
          case (UploadProgress p t)
          with ev Transport show ?thesis by simp
        next
          case (DownloadProgress c)
          from OnDownloadProgress_eq [OF live(1,2), of c] dl DownloadProgress
          have s': "s' = (if resp_status (response s) = 0 then s
                else s\<lparr>client_calls := client_calls s @ upload_note s @
                         [Client_OnDownloadProgress (url_request s) c (download_data_size s)],
                       got_upload_progress_complete :=
                         (got_upload_progress_complete s \<or> upload_note s \<noteq> [])\<rparr>)"
            by simp
          show ?thesis
          proof (cases "resp_status (response s) = 0")
            case True
            with s' up show ?thesis by simp
          next
            case nz: False
            show ?thesis
            proof (cases "got_upload_progress_complete s")
              case True
              with s' nz u(1,2) un h Some show ?thesis
                by (intro upload_inv_liveI [of _ h l]) (simp_all add: nondata_calls_def)
            next
              case ng: False
              with s' nz u(1,3) un Some h nondata_empty_no_progress [of s] show ?thesis
                by (intro upload_inv_liveI [of _ h l]) (simp_all add: nondata_calls_def)
            qed
          qed
        next
          case (DataReceived b)
          from OnDataReceived_eq [OF live(1,2), of b] dl DataReceived
          have s': "s' = s\<lparr>client_calls := client_calls s @
                              [Client_OnDownloadData (url_request s) b]\<rparr>"
            by simp
          show ?thesis
            using u h Some unfolding s'
            by (intro upload_inv_liveI [of _ h l]) (auto simp: nondata_calls_def)
        next
          case (Complete b out)
          note p = pre [of "loader_finished out l"]
          from OnComplete_live [OF p(1,3,4,6), of b] dl Complete live(1)
          have f: "url_request s' = None" "status s' = (if b then UR_SUCCESS else UR_FAILED)"
            "client_calls s' = client_calls s @ (if b then upload_note s else []) @
               [Client_OnRequestComplete (Some h)]"
            using h by (auto simp: un0)
          show ?thesis
          proof (cases b)
            case True
            with f(3) have "client_calls s' = client_calls s @ upload_note s @ [] @
               [Client_OnRequestComplete (Some h)]" by simp
            from upload_shape_closed [OF up h Some n(2) this] f(1)
            show ?thesis by (auto intro: upload_inv_tornI)
          next
            case nb: False
            with f show ?thesis by (auto intro: upload_inv_tornI)
          qed
        next
          case Retry
          with dl live(1) have "s' = s" by (simp add: OnRetry_eq)
          with up show ?thesis by simp
        qed
      qed
    qed
  qed
qed

lemma upload_run:
  assumes fl: "flag_set (req_flags r) UR_FLAG_REPORT_UPLOAD_PROGRESS"
    and body: "req_postdata r = Some [e]" "el_type e = kBytes"
    and n: "n = el_length e - el_offset e" "0 < sint n"
  shows "lifecycle_inv s \<Longrightarrow> descriptor_inv h r s \<Longrightarrow> upload_inv h n s \<Longrightarrow>
         \<forall>ev \<in> set es. \<not> is_upload_event ev \<Longrightarrow> run P es s = Inr s' \<Longrightarrow>
         upload_inv h n s'"
proof (induction es arbitrary: s)
  case Nil
  then show ?case by simp
next
  case (Cons ev es)
  from Cons.prems(5) obtain s1 where s1: "step P ev s = Inr s1" "run P es s1 = Inr s'"
    by (auto simp: thenR_Inr_iff)
  from Cons.prems(4) have ne: "\<not> is_upload_event ev" "\<forall>ev \<in> set es. \<not> is_upload_event ev"
    by simp_all
  from Cons.IH [OF inv_step [OF Cons.prems(1) s1(1)]
      descriptor_step [OF Cons.prems(1,2) s1(1)]
      upload_step [OF Cons.prems(1,2,3) fl body n ne(1) s1(1)] ne(2) s1(2)]
  show ?case .
qed

lemma upload_inv_Context_new: "upload_inv h n (Context_new h f r c rc m n0)"
  by (simp add: upload_inv_def torn_down_def Context_new_def)

subsection \<open>The calls added by one event\<close>

lemma dropWhile_append_cases:
  "dropWhile Q (xs @ ys) =
     (case dropWhile Q xs of [] \<Rightarrow> dropWhile Q ys | c # post \<Rightarrow> c # post @ ys)"
  by (induction xs) auto

lemma first_kept:
  "filter (\<lambda>c. \<not> Q c) xs = y # ys \<Longrightarrow>
     \<exists>zs. dropWhile Q xs = y # zs \<and> filter (\<lambda>c. \<not> Q c) zs = ys"
  by (induction xs) (auto split: if_splits)

lemma upload_note_cases:
  "upload_note s = [] \<or>
   upload_note s = [Client_OnUploadProgress (url_request s) (upload_data_size s)
                      (upload_data_size s)]"
  by (simp add: upload_note_def)

lemma upload_followed_snoc:
  assumes "upload_followed cs" and "\<not> is_upload_progress t"
  shows "upload_followed (cs @ [t])"
proof (cases "dropWhile is_download_data cs")
  case Nil
  with assms(2) show ?thesis
    by (simp add: upload_followed_def dropWhile_append_cases del: dropWhile_eq_Nil_conv)
next
  case (Cons c post)
  with assms(1) show ?thesis
    by (auto simp: upload_followed_def dropWhile_append_cases)
qed

lemma upload_followed_note:
  assumes "upload_followed cs" and "\<not> is_upload_progress t" and "\<not> is_download_data t"
  shows "upload_followed (cs @ upload_note s @ t # ts)"
proof (cases "dropWhile is_download_data cs")
  case Nil
  from upload_note_cases [of s] show ?thesis
  proof
    assume "upload_note s = []"
    with Nil assms(2,3) show ?thesis
      by (simp add: upload_followed_def dropWhile_append_cases del: dropWhile_eq_Nil_conv)
  next
    assume "upload_note s = [Client_OnUploadProgress (url_request s) (upload_data_size s)
                      (upload_data_size s)]"
    with Nil assms(2,3) show ?thesis
      by (simp add: upload_followed_def dropWhile_append_cases del: dropWhile_eq_Nil_conv)
  qed
next
  case (Cons c post)
  with assms(1) show ?thesis
    by (auto simp: upload_followed_def dropWhile_append_cases)
qed

text \<open>
  The calls that one event adds to those the client has received: none, one call that
  is not an upload notification, or the final upload notification where it is due,
  followed at once by a call that is neither an upload notification nor data.
\<close>

lemma step_calls:
  assumes inv: "lifecycle_inv s" and ev: "\<not> is_upload_event ev"
    and st: "step P ev s = Inr s'"
  shows "client_calls s' = client_calls s \<or>
         (\<exists>t. client_calls s' = client_calls s @ [t] \<and> \<not> is_upload_progress t) \<or>
         (\<exists>t ts. client_calls s' = client_calls s @ upload_note s @ t # ts \<and>
                  \<not> is_download_data t \<and> \<not> is_upload_progress t \<and>
                  filter is_upload_progress ts = [])"
proof (cases "url_request s = None")
  case True
  from step_torn_down [OF True lifecycle_inv_torn(1) [OF inv True], of P ev] st
  show ?thesis by auto
next
  case False
  note live = lifecycle_inv_live [OF inv False]
  show ?thesis
  proof (cases ev)
    case Call_Start
    with st show ?thesis by (auto simp: Start_def split: if_splits)
  next
    case Call_Cancel
    from Cancel_live [OF False live(1,2,3)] st Call_Cancel
    have "client_calls s' = client_calls s @ [Client_OnRequestComplete (url_request s)]"
      by auto
    then show ?thesis by simp
  next
    case Run_UI_task
    with st show ?thesis by (auto simp: Let_def split: list.splits prod.splits)
  next
    case Run_origin_task
    show ?thesis
    proof (cases "origin_tasks s")
      case Nil
      with st Run_origin_task show ?thesis by simp
    next
      case (Cons a ts)
      obtain rf i g where a: "a = (rf, i, g)" by (cases a)
      define s0 where "s0 = s\<lparr>origin_tasks := ts\<rparr>"
      have run: "ContinueOnOriginatingThread P rf i g s0 = Inr s'"
        using st Run_origin_task Cons a by (simp add: s0_def)
      have pre: "url_request s0 \<noteq> None" "status s0 = UR_IO_PENDING" "client s0 \<noteq> None"
        "removable s0"
        using False live by (simp_all add: s0_def removable_def registered_def)
      show ?thesis
      proof (cases g)
        case None
        with run pre(1) have "Cancel s0 = Inr s'"
          by (auto simp: ContinueOnOriginatingThread_def)
        with Cancel_live [OF pre]
        have "client_calls s' = client_calls s0 @ [Client_OnRequestComplete (url_request s0)]"
          by auto
        then show ?thesis by (simp add: s0_def)
      next
        case (Some gt)
        from Continue_Inr_D [OF pre(1) run [unfolded Some]]
        have d: "sint i \<le> sint kInitialRequestID" "g_manager s0 i = None" by simp_all
        from Continue_configures [OF pre(1,2) d, of P rf gt] run Some
        have "client_calls s' = client_calls s0" by auto
        then show ?thesis by (simp add: s0_def)
      qed
    qed
  next
    case (Transport tev)
    show ?thesis
    proof (cases "loader s")
      case None
      with st Transport show ?thesis by simp
    next
      case (Some l)
      show ?thesis
      proof (cases "callback_bound l tev")
        case nb: False
        with st Transport Some show ?thesis by simp
      next
        case True
        with st Transport Some have dl: "deliver l tev s = Inr s'" by simp
        have pre: "url_request (s\<lparr>loader := Some l'\<rparr>) \<noteq> None"
          "status (s\<lparr>loader := Some l'\<rparr>) = UR_IO_PENDING"
          "client (s\<lparr>loader := Some l'\<rparr>) \<noteq> None" "removable (s\<lparr>loader := Some l'\<rparr>)"
          "loader (s\<lparr>loader := Some l'\<rparr>) = Some l'"
          "status (s\<lparr>loader := Some l'\<rparr>) = UR_IO_PENDING \<longrightarrow>
             loader (s\<lparr>loader := Some l'\<rparr>) \<noteq> None" for l'
          using False live by (simp_all add: removable_def registered_def)
        have un0: "upload_note (s\<lparr>loader := Some l'\<rparr>) = upload_note s" for l'
          by (simp add: upload_note_def)
        show ?thesis
        proof (cases tev)
          case (HeadersOnlyDone hh out)
          from dl HeadersOnlyDone live(1) obtain hs where hs: "hh = Some hs"
            by (cases hh) (simp_all add: OnHeadersOnly_def)
          note p = pre [of "loader_finished out l"]
          from OnHeadersOnly_live [OF p(1,2,3,4,5), of hs] dl HeadersOnlyDone hs
          have f: "client_calls s' = client_calls s @ upload_note s @
               (if req_method (request s) \<noteq> ''HEAD'' \<and> hdr_response_code hs \<noteq> 0
                  then [Client_OnDownloadProgress (url_request s) 0 (hdr_content_length hs)]
                else []) @
               [Client_OnRequestComplete (url_request s)]"
            by (auto simp: un0)
          show ?thesis
          proof (cases "req_method (request s) \<noteq> ''HEAD'' \<and> hdr_response_code hs \<noteq> 0")
            case True
            with f have "client_calls s' = client_calls s @ upload_note s @
                Client_OnDownloadProgress (url_request s) 0 (hdr_content_length hs) #
                [Client_OnRequestComplete (url_request s)]" by simp
            then show ?thesis by simp
          next
            case False
            with f have "client_calls s' = client_calls s @ upload_note s @
                Client_OnRequestComplete (url_request s) # []" by simp
            then show ?thesis by simp
          qed
        next
          case (Redirect u rh)
          from dl Redirect live(1) obtain hs where hs: "rh_headers rh = Some hs"
            by (cases "rh_headers rh") (simp_all add: OnRedirect_def)
          from OnRedirect_live [OF False live(1,2,3) hs, of u] dl Redirect
          have "client_calls s' = client_calls s @ [Client_OnRequestComplete (url_request s)]"
            by auto
          then show ?thesis by simp
        next
          case (ResponseStarted u rh)
          from dl ResponseStarted live(1) obtain hs where hs: "rh_headers rh = Some hs"
            by (cases "rh_headers rh") (simp_all add: OnResponseStarted_def)
          from OnResponseStarted_eq [OF live(1) hs, of u] dl ResponseStarted
          show ?thesis by auto
        next
          case (UploadProgress p t)
          with ev Transport show ?thesis by simp
        next
          case (DownloadProgress c)
          from OnDownloadProgress_eq [OF live(1,2), of c] dl DownloadProgress
          have s': "s' = (if resp_status (response s) = 0 then s
                else s\<lparr>client_calls := client_calls s @ upload_note s @
                         [Client_OnDownloadProgress (url_request s) c (download_data_size s)],
                       got_upload_progress_complete :=
                         (got_upload_progress_complete s \<or> upload_note s \<noteq> [])\<rparr>)"
            by simp
          show ?thesis
          proof (cases "resp_status (response s) = 0")
            case True
            with s' show ?thesis by simp
          next
            case nz: False
            with s' have "client_calls s' = client_calls s @ upload_note s @
                Client_OnDownloadProgress (url_request s) c (download_data_size s) # []"
              by simp
            then show ?thesis by simp
          qed
        next
          case (DataReceived b)
          from OnDataReceived_eq [OF live(1,2), of b] dl DataReceived
          have "client_calls s' = client_calls s @ [Client_OnDownloadData (url_request s) b]"
            by auto
          then show ?thesis by simp
        next
          case (Complete b out)
          note p = pre [of "loader_finished out l"]
          from OnComplete_live [OF p(1,3,4,6), of b] dl Complete live(1)
          have f: "client_calls s' = client_calls s @ (if b then upload_note s else []) @
               [Client_OnRequestComplete (url_request s)]"
            by (auto simp: un0)
          show ?thesis
          proof (cases b)
            case True
            with f have "client_calls s' = client_calls s @ upload_note s @
               Client_OnRequestComplete (url_request s) # []" by simp
            then show ?thesis by simp
          next
            case nb: False
            with f show ?thesis by simp
          qed
        next
          case Retry
          with dl live(1) have "s' = s" by (simp add: OnRetry_eq)
          then show ?thesis by simp
        qed
      qed
    qed
  qed
qed

text \<open>
  The expected size of the upload is set by the configuration step alone, from the
  body of the descriptor.
\<close>

lemma step_upload_size:
  assumes inv: "lifecycle_inv s" and ev: "\<not> is_upload_event ev"
    and st: "step P ev s = Inr s'"
  shows "url_request s' = None \<or> upload_data_size s' = upload_data_size s \<or>
         (\<exists>l0 l1. attach_request_body P (req_flags (request s)) (req_postdata (request s))
                     (content_type_of (request s)) l0 (upload_data_size s) =
                   (l1, upload_data_size s'))"
proof (cases "url_request s = None")
  case True
  from step_torn_down [OF True lifecycle_inv_torn(1) [OF inv True], of P ev] st
  show ?thesis by auto
next
  case False
  note live = lifecycle_inv_live [OF inv False]
  show ?thesis
  proof (cases "terminal_event s ev")
    case True
    from terminal_event_tears_down [OF inv False True, of P] st show ?thesis by auto
  next
    case nt: False
    show ?thesis
    proof (cases ev)
      case Call_Start
      with st show ?thesis by (auto simp: Start_def split: if_splits)
    next
      case Call_Cancel
      with nt show ?thesis by simp
    next
      case Run_UI_task
      with st show ?thesis by (auto simp: Let_def split: list.splits prod.splits)
    next
      case Run_origin_task
      show ?thesis
      proof (cases "origin_tasks s")
        case Nil
        with st Run_origin_task show ?thesis by simp
      next
        case (Cons a ts)
        obtain rf i g where a: "a = (rf, i, g)" by (cases a)
        define s0 where "s0 = s\<lparr>origin_tasks := ts\<rparr>"
        have run: "ContinueOnOriginatingThread P rf i g s0 = Inr s'"
          using st Run_origin_task Cons a by (simp add: s0_def)
        have pre: "url_request s0 \<noteq> None" "status s0 = UR_IO_PENDING"
          using False live by (simp_all add: s0_def)
        from nt Run_origin_task Cons a obtain gt where Some: "g = Some gt" by auto
        from Continue_Inr_D [OF pre(1) run [unfolded Some]]
        have d: "sint i \<le> sint kInitialRequestID" "g_manager s0 i = None" by simp_all
        from Continue_configures [OF pre(1,2) d, of P rf gt] run Some
        obtain l l1 sz where f: "loader s' = Some l" "url_request s' = url_request s0"
          "client_calls s' = client_calls s0"
          "got_upload_progress_complete s' = got_upload_progress_complete s0"
          "attach_request_body P (req_flags (request s0)) (req_postdata (request s0))
             (content_type_of (request s0))
             ((SimpleURLLoader_Create (ld_resource_request l))\<lparr>ld_request_id := Some i\<rparr>)
             (upload_data_size s0) = (l1, sz)"
          "upload_data_size s' = sz"
          by auto
        from f(5,6) show ?thesis by (auto simp: s0_def)
      qed
    next
      case (Transport tev)
      show ?thesis
      proof (cases "loader s")
        case None
        with st Transport show ?thesis by simp
      next
        case (Some l)
        show ?thesis
        proof (cases "callback_bound l tev")
          case nb: False
          with st Transport Some show ?thesis by simp
        next
          case True
          with st Transport Some have dl: "deliver l tev s = Inr s'" by simp
          from nt Transport Some True have ne: "\<not> ends_transport tev" by simp
          show ?thesis
          proof (cases tev)
            case (HeadersOnlyDone hh out)
            with ne dl live(1) show ?thesis by (simp add: OnHeadersOnly_def)
          next
            case (Redirect u rh)
            with ne dl live(1) show ?thesis by (simp add: OnRedirect_def)
          next
            case (ResponseStarted u rh)
            from dl ResponseStarted live(1) obtain hs where hs: "rh_headers rh = Some hs"
              by (cases "rh_headers rh") (simp_all add: OnResponseStarted_def)
            from OnResponseStarted_eq [OF live(1) hs, of u] dl ResponseStarted
            show ?thesis by auto
          next
            case (UploadProgress p t)
            with ev Transport show ?thesis by simp
          next
            case (DownloadProgress c)
            from OnDownloadProgress_eq [OF live(1,2), of c] dl DownloadProgress
            show ?thesis by (auto split: if_splits)
          next
            case (DataReceived b)
            from OnDataReceived_eq [OF live(1,2), of b] dl DataReceived
            show ?thesis by auto
          next
            case (Complete b out)
            with ne show ?thesis by simp
          next
            case Retry
            with dl live(1) have "s' = s" by (simp add: OnRetry_eq)
            then show ?thesis by simp
          qed
        qed
      qed
    qed
  qed
qed

subsection \<open>Position of the notification, and requests without one\<close>

lemma upload_followed_step:
  assumes "lifecycle_inv s" and "\<not> is_upload_event ev" and "step P ev s = Inr s'"
    and "upload_followed (client_calls s)"
  shows "upload_followed (client_calls s')"
  using step_calls [OF assms(1,2,3)] assms(4)
  by (auto intro: upload_followed_snoc upload_followed_note)

lemma upload_followed_run:
  "lifecycle_inv s \<Longrightarrow> upload_followed (client_calls s) \<Longrightarrow>
   \<forall>ev \<in> set es. \<not> is_upload_event ev \<Longrightarrow> run P es s = Inr s' \<Longrightarrow>
   upload_followed (client_calls s')"
proof (induction es arbitrary: s)
  case Nil
  then show ?case by simp
next
  case (Cons ev es)
  from Cons.prems(4) obtain s1 where s1: "step P ev s = Inr s1" "run P es s1 = Inr s'"
    by (auto simp: thenR_Inr_iff)
  from Cons.prems(3) have ne: "\<not> is_upload_event ev" "\<forall>ev \<in> set es. \<not> is_upload_event ev"
    by simp_all
  from Cons.IH [OF inv_step [OF Cons.prems(1) s1(1)]
      upload_followed_step [OF Cons.prems(1) ne(1) s1(1) Cons.prems(2)] ne(2) s1(2)]
  show ?case .
qed

lemma unnotified_step:
  assumes inv: "lifecycle_inv s" and desc: "descriptor_inv h r s"
    and body: "req_postdata r = Some [e]" "el_type e = kBytes"
    and n: "\<not> 0 < sint (el_length e - el_offset e)"
    and ev: "\<not> is_upload_event ev" and st: "step P ev s = Inr s'"
    and un: "unnotified s"
  shows "unnotified s'"
proof (cases "url_request s = None")
  case True
  from step_torn_down [OF True lifecycle_inv_torn(1) [OF inv True], of P ev] st
  have "url_request s' = None" "client_calls s' = client_calls s" by auto
  with un show ?thesis by (simp add: unnotified_def torn_down_def)
next
  case False
  with un have sz: "\<not> 0 < sint (upload_data_size s)"
    by (simp add: unnotified_def torn_down_def)
  then have un0: "upload_note s = []" by (simp add: upload_note_def)
  have "filter is_upload_progress (client_calls s') = []"
    using step_calls [OF inv ev st] un un0 by (auto simp: unnotified_def)
  moreover have "torn_down s' \<or> \<not> 0 < sint (upload_data_size s')"
  proof -
    have "req_postdata (request s) = Some [e]"
      using desc body(1) by (simp add: descriptor_inv_def)
    with step_upload_size [OF inv ev st] sz n body(2) show ?thesis
      by (auto simp: torn_down_def attach_bytes split: if_splits)
  qed
  ultimately show ?thesis by (simp add: unnotified_def)
qed

lemma unnotified_run:
  assumes body: "req_postdata r = Some [e]" "el_type e = kBytes"
    and n: "\<not> 0 < sint (el_length e - el_offset e)"
  shows "lifecycle_inv s \<Longrightarrow> descriptor_inv h r s \<Longrightarrow> unnotified s \<Longrightarrow>
         \<forall>ev \<in> set es. \<not> is_upload_event ev \<Longrightarrow> run P es s = Inr s' \<Longrightarrow>
         unnotified s'"
proof (induction es arbitrary: s)
  case Nil
  then show ?case by simp
next
  case (Cons ev es)
  from Cons.prems(5) obtain s1 where s1: "step P ev s = Inr s1" "run P es s1 = Inr s'"
    by (auto simp: thenR_Inr_iff)
  from Cons.prems(4) have ne: "\<not> is_upload_event ev" "\<forall>ev \<in> set es. \<not> is_upload_event ev"
    by simp_all
  from Cons.IH [OF inv_step [OF Cons.prems(1) s1(1)]
      descriptor_step [OF Cons.prems(1,2) s1(1)]
      unnotified_step [OF Cons.prems(1,2) body n ne(1) s1(1) Cons.prems(3)] ne(2) s1(2)]
  show ?case .
qed

lemma unnotified_Context_new: "unnotified (Context_new h f r c rc m n0)"
  by (simp add: unnotified_def Context_new_def)

lemma upload_followed_Context_new: "upload_followed (client_calls (Context_new h f r c rc m n0))"
  by (simp add: upload_followed_def Context_new_def)

lemma filter_upload_nondata:
  "filter is_upload_progress (client_calls s) = filter is_upload_progress (nondata_calls s)"
  unfolding nondata_calls_def filter_filter
  by (rule filter_cong) (auto elim: is_upload_progress.elims)

lemma filter_progress_nondata:
  "filter is_download_progress (client_calls s) =
     filter is_download_progress (nondata_calls s)"
  unfolding nondata_calls_def filter_filter
  by (rule filter_cong) (auto elim: is_download_progress.elims)

lemma filter_upload_progress_calls:
  "filter (\<lambda>c. is_download_progress c \<and> is_upload_progress c) cs = []"
  by (auto simp: filter_empty_conv elim: is_upload_progress.elims)

text \<open>
  C4 (amended). Take a request created with the report-upload-progress flag and a body
  of a single bytes element, and any sequence of events without an upload notification
  of the loader. Let the size of the body be its length less its offset, as a signed
  64-bit number.

  If the size is positive and the status is success, the client has received exactly
  one upload-progress call, with sent and total both the size of the body. Only
  download-data calls precede it, and the call made right after it is a
  download-progress call or the completion call: the notification is made where the
  first download progress is reported to the client or, failing that, where the request
  completes. Leaving the download-data calls aside, it is the first call, followed by
  download-progress calls only and, last, by the completion call.

  If the size is positive and the request is still live, the client has received that
  one call if it has received a download-progress call, and no upload-progress call
  otherwise.

  If the size is not positive, the client has received no upload-progress call.
\<close>

theorem upload_completion_notified_once:
  assumes "run P es (Context_new h f r c rc m n0) = Inr s"
    and "flag_set (req_flags r) UR_FLAG_REPORT_UPLOAD_PROGRESS"
    and "req_postdata r = Some [e]" and "el_type e = kBytes"
    and "\<forall>ev \<in> set es. \<not> is_upload_event ev"
  shows "if 0 < sint (el_length e - el_offset e)
         then (status s = UR_SUCCESS \<longrightarrow>
                 nondata_calls s =
                   Client_OnUploadProgress (Some h) (el_length e - el_offset e)
                       (el_length e - el_offset e) #
                     filter is_download_progress (client_calls s) @
                     [Client_OnRequestComplete (Some h)] \<and>
                 filter is_upload_progress (client_calls s) =
                   [Client_OnUploadProgress (Some h) (el_length e - el_offset e)
                      (el_length e - el_offset e)] \<and>
                 (\<exists>t post.
                    dropWhile is_download_data (client_calls s) =
                      Client_OnUploadProgress (Some h) (el_length e - el_offset e)
                          (el_length e - el_offset e) # t # post \<and>
                    (is_download_progress t \<or> is_completion t))) \<and>
              (\<not> torn_down s \<longrightarrow>
                 filter is_upload_progress (client_calls s) =
                   (if filter is_download_progress (client_calls s) = [] then []
                    else [Client_OnUploadProgress (Some h) (el_length e - el_offset e)
                            (el_length e - el_offset e)]))
         else filter is_upload_progress (client_calls s) = []"
proof (cases "0 < sint (el_length e - el_offset e)")
  case False
  from unnotified_run [OF assms(3,4) False inv_Context_new descriptor_Context_new
      unnotified_Context_new assms(5,1)]
  show ?thesis using False by (simp add: unnotified_def)
next
  case pos: True
  define n where "n = el_length e - el_offset e"
  note inv = reachable_invs(1) [OF assms(1)]
  from upload_run [OF assms(2,3,4) n_def pos [folded n_def] inv_Context_new
      descriptor_Context_new upload_inv_Context_new assms(5,1)]
  have up: "upload_inv h n s" .
  from upload_followed_run [OF inv_Context_new upload_followed_Context_new assms(5,1)]
  have fo: "upload_followed (client_calls s)" .
  have after: "\<exists>t post. dropWhile is_download_data (client_calls s) =
                   Client_OnUploadProgress (Some h) n n # t # post \<and>
                 \<not> is_download_data t \<and> rest = t # filter (\<lambda>c. \<not> is_download_data c) post"
    if "nondata_calls s = Client_OnUploadProgress (Some h) n n # rest" for rest
  proof -
    from first_kept [OF that [unfolded nondata_calls_def]] obtain zs where
      zs: "dropWhile is_download_data (client_calls s) = Client_OnUploadProgress (Some h) n n # zs"
        "filter (\<lambda>c. \<not> is_download_data c) zs = rest"
      by blast
    with fo obtain t post where "zs = t # post" "\<not> is_download_data t"
      by (cases zs) (auto simp: upload_followed_def)
    with zs show ?thesis by auto
  qed
  have success: "nondata_calls s =
                   Client_OnUploadProgress (Some h) n n #
                     filter is_download_progress (client_calls s) @
                     [Client_OnRequestComplete (Some h)] \<and>
                 filter is_upload_progress (client_calls s) =
                   [Client_OnUploadProgress (Some h) n n] \<and>
                 (\<exists>t post.
                    dropWhile is_download_data (client_calls s) =
                      Client_OnUploadProgress (Some h) n n # t # post \<and>
                    (is_download_progress t \<or> is_completion t))"
    if ok: "status s = UR_SUCCESS"
  proof -
    from inv ok have "torn_down s"
      by (auto simp: lifecycle_inv_def split: if_splits)
    with up ok have shape: "nondata_calls s =
           Client_OnUploadProgress (Some h) n n #
             filter is_download_progress (client_calls s) @
             [Client_OnRequestComplete (Some h)]"
      by (simp add: upload_inv_def)
    then have one: "filter is_upload_progress (client_calls s) =
                      [Client_OnUploadProgress (Some h) n n]"
      by (simp add: filter_upload_nondata filter_upload_progress_calls)
    from after [OF shape] obtain t post where
      t: "dropWhile is_download_data (client_calls s) =
            Client_OnUploadProgress (Some h) n n # t # post"
        "filter is_download_progress (client_calls s) @ [Client_OnRequestComplete (Some h)] =
           t # filter (\<lambda>c. \<not> is_download_data c) post"
      by blast
    have "is_download_progress t \<or> is_completion t"
    proof (cases "filter is_download_progress (client_calls s)")
      case Nil
      with t(2) show ?thesis by auto
    next
      case (Cons d ds)
      with t(2) have "t = d" by simp
      moreover from Cons have "d \<in> set (filter is_download_progress (client_calls s))"
        by simp
      ultimately show ?thesis by simp
    qed
    with shape one t(1) show ?thesis by blast
  qed
  have pending: "filter is_upload_progress (client_calls s) =
                   (if filter is_download_progress (client_calls s) = [] then []
                    else [Client_OnUploadProgress (Some h) n n])"
    if live: "\<not> torn_down s"
  proof (cases "loader s")
    case None
    with inv live have "client_calls s = []"
      by (auto simp: lifecycle_inv_def split: if_splits)
    then show ?thesis by simp
  next
    case (Some l)
    from live have l: "url_request s \<noteq> None" by (simp add: torn_down_def)
    note u = upload_inv_loader [OF up l Some]
    show ?thesis
    proof (cases "got_upload_progress_complete s")
      case True
      note shape = u(2) [OF True]
      from after [OF shape] obtain t post where
        "filter is_download_progress (client_calls s) =
           t # filter (\<lambda>c. \<not> is_download_data c) post"
        by blast
      then have "filter is_download_progress (client_calls s) \<noteq> []" by simp
      with shape show ?thesis
        by (simp add: filter_upload_nondata filter_upload_progress_calls)
    next
      case False
      from u(3) [OF False] show ?thesis
        by (simp add: filter_upload_nondata filter_progress_nondata)
    qed
  qed
  from pos success pending show ?thesis unfolding n_def by simp
qed

lemma w_uploaded_run:
  "run w_platform w_quick_upload (w_context (w_request ''GET'' (Some [w_bytes_element]) 16)) =
     Inr (w_uploaded (w_request ''GET'' (Some [w_bytes_element]) 16))"
  unfolding w_uploaded_def by (rule projr_run) (simp add: eval_defs)

lemma w_uploading_run:
  "run w_platform w_slow_upload (w_context (w_request ''GET'' (Some [w_bytes_element]) 16)) =
     Inr (w_uploading (w_request ''GET'' (Some [w_bytes_element]) 16))"
  unfolding w_uploading_def by (rule projr_run) (simp add: w_slow_upload_def eval_defs)

lemma w_configured_upload_run:
  "run w_platform w_configure (w_context (w_request ''GET'' (Some [w_bytes_element]) 16)) =
     Inr (w_configured (w_request ''GET'' (Some [w_bytes_element]) 16))"
  unfolding w_configured_def by (rule projr_run) (simp add: eval_defs)

lemma w_uploaded_empty_run:
  "run w_platform w_quick_upload (w_context (w_request ''GET'' (Some [w_empty_element]) 16)) =
     Inr (w_uploaded (w_request ''GET'' (Some [w_empty_element]) 16))"
  unfolding w_uploaded_def by (rule projr_run) (simp add: eval_defs)

theorem upload_completion_notified_once_witness:
  "nondata_calls (w_uploaded (w_request ''GET'' (Some [w_bytes_element]) 16)) =
     Client_OnUploadProgress (Some 1) 3 3 #
       filter is_download_progress
         (client_calls (w_uploaded (w_request ''GET'' (Some [w_bytes_element]) 16))) @
       [Client_OnRequestComplete (Some 1)] \<and>
   filter is_upload_progress
       (client_calls (w_uploaded (w_request ''GET'' (Some [w_bytes_element]) 16))) =
     [Client_OnUploadProgress (Some 1) 3 3] \<and>
   dropWhile is_download_data
       (client_calls (w_uploaded (w_request ''GET'' (Some [w_bytes_element]) 16))) =
     [Client_OnUploadProgress (Some 1) 3 3, Client_OnDownloadProgress (Some 1) 1 10,
      Client_OnRequestComplete (Some 1)] \<and>
   client_calls (w_uploaded (w_request ''GET'' (Some [w_bytes_element]) 16)) =
     [Client_OnDownloadData (Some 1) [1], Client_OnUploadProgress (Some 1) 3 3,
      Client_OnDownloadProgress (Some 1) 1 10, Client_OnRequestComplete (Some 1)] \<and>
   \<not> torn_down (w_uploading (w_request ''GET'' (Some [w_bytes_element]) 16)) \<and>
   filter is_upload_progress
       (client_calls (w_uploading (w_request ''GET'' (Some [w_bytes_element]) 16))) =
     [Client_OnUploadProgress (Some 1) 3 3] \<and>
   \<not> torn_down (w_configured (w_request ''GET'' (Some [w_bytes_element]) 16)) \<and>
   filter is_upload_progress
       (client_calls (w_configured (w_request ''GET'' (Some [w_bytes_element]) 16))) = [] \<and>
   filter is_upload_progress
       (client_calls (w_uploaded (w_request ''GET'' (Some [w_empty_element]) 16))) = []"
proof -
  have a: "flag_set (req_flags (w_request ''GET'' (Some [w_bytes_element]) 16))
             UR_FLAG_REPORT_UPLOAD_PROGRESS"
    and b: "req_postdata (w_request ''GET'' (Some [w_bytes_element]) 16) =
             Some [w_bytes_element]"
    and c: "el_type w_bytes_element = kBytes"
    and d: "0 < sint (el_length w_bytes_element - el_offset w_bytes_element)"
    and e: "\<forall>ev \<in> set w_quick_upload. \<not> is_upload_event ev"
    and f: "status (w_uploaded (w_request ''GET'' (Some [w_bytes_element]) 16)) = UR_SUCCESS"
    and g: "client_calls (w_uploaded (w_request ''GET'' (Some [w_bytes_element]) 16)) =
     [Client_OnDownloadData (Some 1) [1], Client_OnUploadProgress (Some 1) 3 3,
      Client_OnDownloadProgress (Some 1) 1 10, Client_OnRequestComplete (Some 1)]"
    by (simp_all add: w_uploaded_def eval_defs)
  have e': "\<forall>ev \<in> set w_slow_upload. \<not> is_upload_event ev"
    and l: "\<not> torn_down (w_uploading (w_request ''GET'' (Some [w_bytes_element]) 16))"
    and p: "filter is_download_progress
              (client_calls (w_uploading (w_request ''GET'' (Some [w_bytes_element]) 16))) \<noteq> []"
    by (simp_all add: w_uploading_def w_slow_upload_def torn_down_def eval_defs)
  have e'': "\<forall>ev \<in> set w_configure. \<not> is_upload_event ev"
    and l': "\<not> torn_down (w_configured (w_request ''GET'' (Some [w_bytes_element]) 16))"
    and p': "filter is_download_progress
              (client_calls (w_configured (w_request ''GET'' (Some [w_bytes_element]) 16))) = []"
    by (simp_all add: w_configured_def torn_down_def eval_defs)
  have a0: "flag_set (req_flags (w_request ''GET'' (Some [w_empty_element]) 16))
             UR_FLAG_REPORT_UPLOAD_PROGRESS"
    and b0: "req_postdata (w_request ''GET'' (Some [w_empty_element]) 16) =
             Some [w_empty_element]"
    and c0: "el_type w_empty_element = kBytes"
    and d0: "\<not> 0 < sint (el_length w_empty_element - el_offset w_empty_element)"
    by (simp_all add: eval_defs)
  from upload_completion_notified_once [OF w_uploaded_run [unfolded w_context_def] a b c e]
    upload_completion_notified_once [OF w_uploading_run [unfolded w_context_def] a b c e']
    upload_completion_notified_once [OF w_configured_upload_run [unfolded w_context_def] a b c e'']
    upload_completion_notified_once [OF w_uploaded_empty_run [unfolded w_context_def] a0 b0 c0 e]
    d d0 f g l p l' p'
  show ?thesis by (simp add: w_bytes_element_def)
qed

text \<open>
  C4 as stated fails: with an empty bytes element as the body, the same run ends in
  success without any upload-progress call.
\<close>

theorem empty_body_upload_not_notified:
  "\<not> isl (run w_platform w_quick_upload
            (w_context (w_request ''GET'' (Some [w_empty_element]) 16))) \<and>
   flag_set (req_flags (w_request ''GET'' (Some [w_empty_element]) 16))
     UR_FLAG_REPORT_UPLOAD_PROGRESS \<and>
   status (w_uploaded (w_request ''GET'' (Some [w_empty_element]) 16)) = UR_SUCCESS \<and>
   filter is_upload_progress
       (client_calls (w_uploaded (w_request ''GET'' (Some [w_empty_element]) 16))) = []"
  by (simp add: w_uploaded_def eval_defs)

end
